theory Spec2Isabelle
  imports Complex_Main "HOL-Library.AList"
begin

section \<open>Python values, exceptions and dictionaries\<close>

text \<open>
  The exception classes that the modelled code raises, catches or lets through. All of
  them derive from Python's \<open>Exception\<close>; \<open>FileNotFoundError\<close> and
  \<open>PermissionError\<close> derive from \<open>OSError\<close>, \<open>JSONDecodeError\<close> and
  \<open>UnicodeDecodeError\<close> from \<open>ValueError\<close>. \<open>DownloadError\<close> stands for
  the errors of the download engine (yt-dlp).
\<close>

datatype exn =
    JSONDecodeError | UnicodeDecodeError | ValueError
  | KeyError | IndexError | AttributeError | TypeError
  | FileNotFoundError | PermissionError | OSError
  | DownloadError

definition is_OSError :: "exn \<Rightarrow> bool" where
  "is_OSError e = (e = OSError \<or> e = FileNotFoundError \<or> e = PermissionError)"

text \<open>What \<open>json.load\<close> yields: Python's view of a JSON document (numbers: integers).\<close>

datatype json =
    JNull | JBool bool | JNum int | JStr string
  | JArr "json list" | JObj "(string \<times> json) list"

text \<open>Python's truth value of such a value (\<open>if video_id:\<close>, \<open>if saved_settings:\<close>).\<close>

fun truthy :: "json \<Rightarrow> bool" where
  "truthy JNull = False"
| "truthy (JBool b) = b"
| "truthy (JNum n) = (n \<noteq> 0)"
| "truthy (JStr s) = (s \<noteq> [])"
| "truthy (JArr xs) = (xs \<noteq> [])"
| "truthy (JObj kvs) = (kvs \<noteq> [])"

text \<open>
  A \<open>dict\<close> with string keys is an association list with distinct keys, in insertion
  order: \<open>d.get(k)\<close> is \<open>map_of d k\<close>, \<open>d[k] = v\<close> is \<open>AList.update k v d\<close>.
  The counting idiom \<open>d[k] = d.get(k, 0) + 1\<close>:
\<close>

definition count_up :: "(string \<times> nat) list \<Rightarrow> string \<Rightarrow> (string \<times> nat) list" where
  "count_up d k = AList.update k ((case map_of d k of None \<Rightarrow> 0 | Some c \<Rightarrow> c) + 1) d"

text \<open>\<open>str.lower\<close>, on ASCII letters.\<close>

definition lower_char :: "char \<Rightarrow> char" where
  "lower_char c =
     (let n = (of_char c :: nat) in if 65 \<le> n \<and> n \<le> 90 then char_of (n + 32) else c)"

definition lower :: "string \<Rightarrow> string" where
  "lower s = map lower_char s"

section \<open>The directory tree (extras.py, helpers.py)\<close>

text \<open>
  A path is the tuple of its parts (\<open>Path.parts\<close>). The file system is the list of the
  entries it holds, in the order in which the operating system lists them. An entry is a
  regular file, a directory, or something else (a broken link, a socket: neither
  \<open>is_file()\<close> nor \<open>is_dir()\<close>). \<open>node_suffix\<close> is \<open>Path.suffix\<close> of the entry;
  \<open>node_size\<close> is \<open>stat().st_size\<close>, \<open>None\<close> where \<open>stat()\<close> raises \<open>OSError\<close>.
\<close>

datatype kind = File | Dir | Other

record node =
  node_path :: "string list"
  node_kind :: kind
  node_suffix :: string
  node_size :: "nat option"

definition is_dir :: "node list \<Rightarrow> string list \<Rightarrow> bool" where
  "is_dir fs p = list_ex (\<lambda>n. node_path n = p \<and> node_kind n = Dir) fs"

definition below :: "string list \<Rightarrow> string list \<Rightarrow> bool" where
  "below base p = (length base < length p \<and> take (length base) p = base)"

text \<open>\<open>base.rglob('*')\<close>: every entry strictly below \<open>base\<close>, files and directories.\<close>

definition rglob_all :: "node list \<Rightarrow> string list \<Rightarrow> node list" where
  "rglob_all fs base = (if is_dir fs base then filter (\<lambda>n. below base (node_path n)) fs else [])"

text \<open>\<open>folder.iterdir()\<close>: the entries directly inside \<open>folder\<close>.\<close>

definition iterdir :: "node list \<Rightarrow> string list \<Rightarrow> node list" where
  "iterdir fs folder =
     filter (\<lambda>n. node_path n \<noteq> [] \<and> butlast (node_path n) = folder) fs"

definition rmdir :: "node list \<Rightarrow> string list \<Rightarrow> node list" where
  "rmdir fs folder = filter (\<lambda>n. node_path n \<noteq> folder) fs"

subsection \<open>helpers.get_folder_size\<close>

text \<open>
  The loop adds the size of every regular file; the \<open>try\<close> encloses the whole loop, so
  the first \<open>OSError\<close> of \<open>stat()\<close> ends it and the sum so far is returned.
\<close>

fun folder_size_loop :: "node list \<Rightarrow> nat \<Rightarrow> nat" where
  "folder_size_loop [] total_size = total_size"
| "folder_size_loop (n # ns) total_size =
     (if node_kind n = File
      then (case node_size n of
              None \<Rightarrow> total_size
            | Some s \<Rightarrow> folder_size_loop ns (total_size + s))
      else folder_size_loop ns total_size)"

definition get_folder_size :: "node list \<Rightarrow> string list \<Rightarrow> nat" where
  "get_folder_size fs folder_path = folder_size_loop (rglob_all fs folder_path) 0"

subsection \<open>FileManager.get_storage_info\<close>

text \<open>
  The returned dictionary, without \<open>total_size_formatted\<close> (a formatted floating-point
  number).
\<close>

record storage_info =
  total_size :: nat
  file_count :: nat
  extensions :: "(string \<times> nat) list"
  folder_count :: nat

fun count_extensions :: "node list \<Rightarrow> (string \<times> nat) list \<Rightarrow> (string \<times> nat) list" where
  "count_extensions [] exts = exts"
| "count_extensions (file_path # rest) exts =
     count_extensions rest
       (if node_kind file_path = File
        then count_up exts (lower (node_suffix file_path))
        else exts)"

definition get_storage_info :: "node list \<Rightarrow> string list \<Rightarrow> storage_info" where
  "get_storage_info fs base_path =
     \<lparr> total_size = get_folder_size fs base_path,
       file_count = length (rglob_all fs base_path),
       extensions = count_extensions (rglob_all fs base_path) [],
       folder_count = length (filter (\<lambda>p. node_kind p = Dir) (rglob_all fs base_path)) \<rparr>"

subsection \<open>FileManager.clean_empty_folders\<close>

text \<open>
  \<open>sorted(..., key=lambda p: len(p.parts), reverse=True)\<close> is a stable sort by
  descending key: entries with the same number of parts keep their listing order. That is
  the stable ascending sort on the negated key.
\<close>

definition sorted_by_depth_desc :: "node list \<Rightarrow> node list" where
  "sorted_by_depth_desc ns = sort_key (\<lambda>p. - int (length (node_path p))) ns"

text \<open>
  The state of the loop: the tree, the counter, and (a ghost) the directories removed so
  far, in order. \<open>os_error folder\<close> says that \<open>iterdir()\<close> or \<open>rmdir()\<close> raises
  \<open>OSError\<close> on \<open>folder\<close> (no permission); the \<open>except\<close> then skips the folder.
\<close>

record clean_state =
  tree :: "node list"
  deleted_count :: nat
  removed :: "string list list"

definition clean_step ::
  "(string list \<Rightarrow> bool) \<Rightarrow> string list \<Rightarrow> string list \<Rightarrow> clean_state \<Rightarrow> clean_state" where
  "clean_step os_error base_path folder s =
     (if is_dir (tree s) folder \<and> folder \<noteq> base_path
      then (if os_error folder then s
            else if iterdir (tree s) folder = []
            then s\<lparr> tree := rmdir (tree s) folder,
                    deleted_count := deleted_count s + 1,
                    removed := removed s @ [folder] \<rparr>
            else s)
      else s)"

fun clean_loop ::
  "(string list \<Rightarrow> bool) \<Rightarrow> string list \<Rightarrow> string list list \<Rightarrow> clean_state \<Rightarrow> clean_state" where
  "clean_loop os_error base_path [] s = s"
| "clean_loop os_error base_path (folder # folders) s =
     clean_loop os_error base_path folders (clean_step os_error base_path folder s)"

definition folders_to_visit :: "node list \<Rightarrow> string list \<Rightarrow> string list list" where
  "folders_to_visit fs base_path = map node_path (sorted_by_depth_desc (rglob_all fs base_path))"

definition clean_empty_folders ::
  "(string list \<Rightarrow> bool) \<Rightarrow> node list \<Rightarrow> string list \<Rightarrow> clean_state" where
  "clean_empty_folders os_error fs base_path =
     clean_loop os_error base_path (folders_to_visit fs base_path)
       \<lparr> tree = fs, deleted_count = 0, removed = [] \<rparr>"

text \<open>The tree \<open>root/a/b\<close> of three directories and nothing else.\<close>

definition dir_node :: "string list \<Rightarrow> node" where
  "dir_node p = \<lparr> node_path = p, node_kind = Dir, node_suffix = [], node_size = Some 0 \<rparr>"

subsection \<open>QualityAnalyzer (extras.py)\<close>

text \<open>
  What the tag library yields for a file: the import fails, the call raises, the file is
  not supported (\<open>File(...)\<close> is \<open>None\<close>), or an \<open>info\<close> object whose
  \<open>length\<close> and \<open>bitrate\<close> attributes are there or not (\<open>getattr(..., 0)\<close>).
  Durations are rational numbers here (floating point in the source).
\<close>

datatype mutagen_result =
    ImportFails | FileRaises | Unsupported | TagInfo "rat option" "int option"

text \<open>The dictionary of \<open>analyze_audio_quality\<close>: \<open>{'error': ...}\<close> or the figures.\<close>

datatype analysis = AnalysisError | Analysis (duration: rat) (bitrate: int)

definition analyze_audio_quality :: "(node \<Rightarrow> mutagen_result) \<Rightarrow> node \<Rightarrow> analysis" where
  "analyze_audio_quality mutagen_File file_path =
     (case mutagen_File file_path of
        ImportFails \<Rightarrow> AnalysisError
      | FileRaises \<Rightarrow> AnalysisError
      | Unsupported \<Rightarrow> AnalysisError
      | TagInfo len rate \<Rightarrow>
          (case node_size file_path of
             None \<Rightarrow> AnalysisError
           | Some sz \<Rightarrow>
               Analysis (case len of None \<Rightarrow> 0 | Some l \<Rightarrow> l)
                        (case rate of None \<Rightarrow> 0 | Some b \<Rightarrow> b)))"

text \<open>
  The labels of the bands. The fourth one is \<open>Est\<close>, a with acute accent (two bytes in
  UTF-8), \<open>ndar (128+ kbps)\<close>.
\<close>

definition quality_label :: "int \<Rightarrow> string" where
  "quality_label rate =
     (if rate \<ge> 320 then ''Muy Alta (320+ kbps)''
      else if rate \<ge> 256 then ''Alta (256+ kbps)''
      else if rate \<ge> 192 then ''Buena (192+ kbps)''
      else if rate \<ge> 128 then ''Est'' @ [CHR 0xC3, CHR 0xA1] @ ''ndar (128+ kbps)''
      else ''Baja (<128 kbps)'')"

definition audio_extensions :: "string list" where
  "audio_extensions = [''.mp3'', ''.flac'', ''.wav'', ''.m4a'', ''.ogg'']"

record report_state =
  files_analyzed :: nat
  total_duration :: rat
  quality_distribution :: "(string \<times> nat) list"

definition report_step :: "(node \<Rightarrow> mutagen_result) \<Rightarrow> node \<Rightarrow> report_state \<Rightarrow> report_state" where
  "report_step mutagen_File file_path s =
     (if lower (node_suffix file_path) \<in> set audio_extensions
      then (case analyze_audio_quality mutagen_File file_path of
              AnalysisError \<Rightarrow> s
            | Analysis dur rate \<Rightarrow>
                s\<lparr> files_analyzed := files_analyzed s + 1,
                    total_duration := total_duration s + dur,
                    quality_distribution :=
                      (if rate > 0
                       then count_up (quality_distribution s) (quality_label rate)
                       else quality_distribution s) \<rparr>)
      else s)"

fun report_loop :: "(node \<Rightarrow> mutagen_result) \<Rightarrow> node list \<Rightarrow> report_state \<Rightarrow> report_state" where
  "report_loop mutagen_File [] s = s"
| "report_loop mutagen_File (file_path # rest) s =
     report_loop mutagen_File rest (report_step mutagen_File file_path s)"

text \<open>\<open>str.split(sep)\<close> for a separator of one character, and list indexing.\<close>

fun split_on :: "char \<Rightarrow> string \<Rightarrow> string list" where
  "split_on sep [] = [[]]"
| "split_on sep (c # cs) =
     (if c = sep then [] # split_on sep cs
      else (case split_on sep cs of
              [] \<Rightarrow> [[c]]
            | piece # pieces \<Rightarrow> (c # piece) # pieces))"

definition py_index :: "'a list \<Rightarrow> nat \<Rightarrow> exn + 'a" where
  "py_index xs i = (if i < length xs then Inr (xs ! i) else Inl IndexError)"

text \<open>
  \<open>int(s)\<close> on an ASCII string: white space around, an optional sign, decimal digits
  that single underscores may separate; anything else raises \<open>ValueError\<close>.
\<close>

definition is_space :: "char \<Rightarrow> bool" where
  "is_space c = (let n = (of_char c :: nat) in (9 \<le> n \<and> n \<le> 13) \<or> (28 \<le> n \<and> n \<le> 32))"

definition strip :: "string \<Rightarrow> string" where
  "strip s = rev (dropWhile is_space (rev (dropWhile is_space s)))"

definition digit_val :: "char \<Rightarrow> nat option" where
  "digit_val c = (let n = (of_char c :: nat) in if 48 \<le> n \<and> n \<le> 57 then Some (n - 48) else None)"

fun digits_from :: "nat \<Rightarrow> string \<Rightarrow> nat option" where
  "digits_from acc [] = Some acc"
| "digits_from acc [c] =
     (case digit_val c of None \<Rightarrow> None | Some v \<Rightarrow> Some (acc * 10 + v))"
| "digits_from acc (c # d # ds) =
     (if c = CHR ''_''
      then (case digit_val d of None \<Rightarrow> None | Some v \<Rightarrow> digits_from (acc * 10 + v) ds)
      else (case digit_val c of None \<Rightarrow> None | Some v \<Rightarrow> digits_from (acc * 10 + v) (d # ds)))"

definition parse_digits :: "string \<Rightarrow> nat option" where
  "parse_digits s =
     (case s of
        [] \<Rightarrow> None
      | c # cs \<Rightarrow> (case digit_val c of None \<Rightarrow> None | Some v \<Rightarrow> digits_from v cs))"

definition py_int :: "string \<Rightarrow> exn + int" where
  "py_int s =
     (let t = strip s;
          negative = (t \<noteq> [] \<and> hd t = CHR ''-'');
          body = (if t \<noteq> [] \<and> (hd t = CHR ''-'' \<or> hd t = CHR ''+'') then tl t else t)
      in case parse_digits body of
           None \<Rightarrow> Inl ValueError
         | Some n \<Rightarrow> Inr (if negative then - int n else int n))"

text \<open>
  \<open>sum(int(k.split('(')[1].split('+')[0]) * v for k, v in quality_distribution.items()
  if '(' in k)\<close>: the terms are computed from left to right, and the first exception
  ends the sum.
\<close>

definition label_bitrate :: "string \<Rightarrow> exn + int" where
  "label_bitrate k =
     (case py_index (split_on (CHR ''('') k) 1 of
        Inl e \<Rightarrow> Inl e
      | Inr after_paren \<Rightarrow>
          (case py_index (split_on (CHR ''+'') after_paren) 0 of
             Inl e \<Rightarrow> Inl e
           | Inr number \<Rightarrow> py_int number))"

fun label_sum :: "(string \<times> nat) list \<Rightarrow> exn + int" where
  "label_sum [] = Inr 0"
| "label_sum ((k, v) # items) =
     (if CHR ''('' \<in> set k
      then (case label_bitrate k of
              Inl e \<Rightarrow> Inl e
            | Inr rate \<Rightarrow>
                (case label_sum items of
                   Inl e \<Rightarrow> Inl e
                 | Inr rest \<Rightarrow> Inr (rate * int v + rest)))
      else label_sum items)"

text \<open>The report, without \<open>total_duration_formatted\<close> (a formatted floating-point number).\<close>

record quality_report =
  report_files_analyzed :: nat
  report_total_duration :: rat
  report_quality_distribution :: "(string \<times> nat) list"
  average_bitrate :: rat

definition get_quality_report ::
  "(node \<Rightarrow> mutagen_result) \<Rightarrow> node list \<Rightarrow> string list \<Rightarrow> exn + quality_report" where
  "get_quality_report mutagen_File fs base_path =
     (let s = report_loop mutagen_File (rglob_all fs base_path)
                \<lparr> files_analyzed = 0, total_duration = 0, quality_distribution = [] \<rparr>
      in case label_sum (quality_distribution s) of
           Inl e \<Rightarrow> Inl e
         | Inr weighted \<Rightarrow>
             Inr \<lparr> report_files_analyzed = files_analyzed s,
                   report_total_duration = total_duration s,
                   report_quality_distribution = quality_distribution s,
                   average_bitrate = of_int weighted / of_nat (max (files_analyzed s) 1) \<rparr>)"

definition audio_file :: "string list \<Rightarrow> string \<Rightarrow> node" where
  "audio_file p suffix = \<lparr> node_path = p, node_kind = File, node_suffix = suffix, node_size = Some 1 \<rparr>"

text \<open>
  An audio file whose tags are read and give a bit rate above 0 and below 128: a file of
  the lowest band.
\<close>

definition low_file :: "(node \<Rightarrow> mutagen_result) \<Rightarrow> node \<Rightarrow> bool" where
  "low_file mutagen_File f =
     (lower (node_suffix f) \<in> set audio_extensions \<and>
      (case analyze_audio_quality mutagen_File f of
         AnalysisError \<Rightarrow> False
       | Analysis d r \<Rightarrow> 0 < r \<and> r < 128))"

section \<open>Settings (helpers.py)\<close>

text \<open>
  The JSON files of the settings: what \<open>open\<close> and \<open>json.load\<close> yield at each path,
  a dictionary (the \<open>Optional[Dict]\<close> of \<open>load_json_file\<close>) or the exception raised
  (\<open>FileNotFoundError\<close> where there is no file). A dictionary of JSON values written by
  \<open>json.dump\<close> is read back as it was.
\<close>

type_synonym json_files = "string \<Rightarrow> exn + (string \<times> json) list"

definition load_json_file :: "json_files \<Rightarrow> string \<Rightarrow> exn + (string \<times> json) list option" where
  "load_json_file files file_path =
     (case files file_path of
        Inr data \<Rightarrow> Inr (Some data)
      | Inl e \<Rightarrow>
          if e = JSONDecodeError \<or> e = FileNotFoundError \<or> e = PermissionError
          then Inr None else Inl e)"

text \<open>
  \<open>write_error p\<close> is the exception that creating the directory, opening or writing
  raises at \<open>p\<close>, if any; the file is then left as it was.
\<close>

definition save_json_file ::
  "(string \<Rightarrow> exn option) \<Rightarrow> (string \<times> json) list \<Rightarrow> string \<Rightarrow> json_files
   \<Rightarrow> (exn + bool) \<times> json_files" where
  "save_json_file write_error data file_path files =
     (case write_error file_path of
        None \<Rightarrow> (Inr True, files(file_path := Inr data))
      | Some e \<Rightarrow> (if is_OSError e then Inr False else Inl e, files))"

record SettingsManager =
  settings_file :: string
  settings :: "(string \<times> json) list"

text \<open>\<open>home_downloads\<close> is \<open>str(Path.home() / 'Downloads' / 'YouTube')\<close>.\<close>

definition default_settings :: "string \<Rightarrow> (string \<times> json) list" where
  "default_settings home_downloads =
     [(''download_path'', JStr home_downloads),
      (''default_format'', JStr ''mp3''),
      (''default_quality'', JStr ''192''),
      (''skip_existing'', JBool True),
      (''create_playlist_folders'', JBool True),
      (''embed_thumbnails'', JBool True),
      (''save_metadata'', JBool True),
      (''max_concurrent_downloads'', JNum 3),
      (''theme'', JStr ''clam'')]"

text \<open>\<open>d.update(other)\<close>: the items of \<open>other\<close> are stored in \<open>d\<close> one after the other.\<close>

definition dict_update :: "(string \<times> 'v) list \<Rightarrow> (string \<times> 'v) list \<Rightarrow> (string \<times> 'v) list" where
  "dict_update d other = fold (\<lambda>kv. AList.update (fst kv) (snd kv)) other d"

definition load_settings :: "string \<Rightarrow> json_files \<Rightarrow> string \<Rightarrow> exn + (string \<times> json) list" where
  "load_settings home_downloads files file =
     (case load_json_file files file of
        Inl e \<Rightarrow> Inl e
      | Inr None \<Rightarrow> Inr (default_settings home_downloads)
      | Inr (Some saved_settings) \<Rightarrow>
          Inr (if saved_settings \<noteq> []
               then dict_update (default_settings home_downloads) saved_settings
               else default_settings home_downloads))"

definition new_SettingsManager :: "string \<Rightarrow> json_files \<Rightarrow> string \<Rightarrow> exn + SettingsManager" where
  "new_SettingsManager home_downloads files file =
     (case load_settings home_downloads files file of
        Inl e \<Rightarrow> Inl e
      | Inr loaded \<Rightarrow> Inr \<lparr> settings_file = file, settings = loaded \<rparr>)"

definition save_settings ::
  "(string \<Rightarrow> exn option) \<Rightarrow> SettingsManager \<Rightarrow> json_files \<Rightarrow> (exn + bool) \<times> json_files" where
  "save_settings write_error m files = save_json_file write_error (settings m) (settings_file m) files"

text \<open>\<open>get(key, default=None)\<close>: Python's \<open>None\<close> is \<open>JNull\<close>.\<close>

definition get_setting :: "SettingsManager \<Rightarrow> string \<Rightarrow> json \<Rightarrow> json" where
  "get_setting m key dflt = (case map_of (settings m) key of None \<Rightarrow> dflt | Some v \<Rightarrow> v)"

definition set_setting :: "SettingsManager \<Rightarrow> string \<Rightarrow> json \<Rightarrow> SettingsManager" where
  "set_setting m key val = m\<lparr> settings := AList.update key val (settings m) \<rparr>"

section \<open>Download options (config.py, downloader.py)\<close>

text \<open>
  \<open>DEFAULT_DOWNLOAD_CONFIG\<close> is a dictionary that holds a list of dictionaries, and
  \<open>_build_download_options\<close> works on a copy of it. What a copy shares with the original
  matters, so the objects live in a store: an address is an index into the list of
  objects, a value is a string, a Boolean, the progress hook or the address of a
  dictionary or list.
\<close>

type_synonym addr = nat

datatype pyval = PStr string | PBool bool | PHook | PRef addr

datatype pyobj = PDict "(string \<times> pyval) list" | PList "pyval list"

type_synonym store = "pyobj list"

definition alloc :: "store \<Rightarrow> pyobj \<Rightarrow> addr \<times> store" where
  "alloc h obj = (length h, h @ [obj])"

definition deref :: "store \<Rightarrow> addr \<Rightarrow> pyobj option" where
  "deref h a = (if a < length h then Some (h ! a) else None)"

text \<open>
  \<open>d[k]\<close>, \<open>d[k] = v\<close>, \<open>xs[i]\<close> and the shallow \<open>d.copy()\<close> on a value of the
  store: the copy is a new object that holds the same values, references included.
\<close>

definition dict_getitem :: "store \<Rightarrow> pyval \<Rightarrow> string \<Rightarrow> exn + pyval" where
  "dict_getitem h d k =
     (case d of
        PRef a \<Rightarrow>
          (case deref h a of
             Some (PDict kvs) \<Rightarrow> (case map_of kvs k of None \<Rightarrow> Inl KeyError | Some v \<Rightarrow> Inr v)
           | _ \<Rightarrow> Inl TypeError)
      | _ \<Rightarrow> Inl TypeError)"

definition dict_setitem :: "store \<Rightarrow> pyval \<Rightarrow> string \<Rightarrow> pyval \<Rightarrow> exn + store" where
  "dict_setitem h d k v =
     (case d of
        PRef a \<Rightarrow>
          (case deref h a of
             Some (PDict kvs) \<Rightarrow> Inr (h[a := PDict (AList.update k v kvs)])
           | _ \<Rightarrow> Inl TypeError)
      | _ \<Rightarrow> Inl TypeError)"

definition list_getitem :: "store \<Rightarrow> pyval \<Rightarrow> nat \<Rightarrow> exn + pyval" where
  "list_getitem h xs i =
     (case xs of
        PRef a \<Rightarrow>
          (case deref h a of
             Some (PList vs) \<Rightarrow> py_index vs i
           | _ \<Rightarrow> Inl TypeError)
      | _ \<Rightarrow> Inl TypeError)"

definition dict_copy :: "store \<Rightarrow> addr \<Rightarrow> exn + (addr \<times> store)" where
  "dict_copy h a =
     (case deref h a of
        Some obj \<Rightarrow> Inr (alloc h obj)
      | None \<Rightarrow> Inl AttributeError)"

text \<open>
  The store when the module \<open>config\<close> has been loaded. \<open>downloads_dir\<close> is
  \<open>str(DOWNLOADS_DIR)\<close>.
\<close>

definition DEFAULT_DOWNLOAD_CONFIG :: addr where
  "DEFAULT_DOWNLOAD_CONFIG = 4"

definition initial_store :: "string \<Rightarrow> store" where
  "initial_store downloads_dir =
     [PDict [(''key'', PStr ''FFmpegExtractAudio''),
             (''preferredcodec'', PStr ''mp3''),
             (''preferredquality'', PStr ''192'')],
      PDict [(''key'', PStr ''EmbedThumbnail'')],
      PDict [(''key'', PStr ''FFmpegMetadata'')],
      PList [PRef 0, PRef 1, PRef 2],
      PDict [(''outtmpl'', PStr (downloads_dir @ ''/%(uploader)s/%(title)s.%(ext)s'')),
             (''format'', PStr ''bestaudio/best''),
             (''postprocessors'', PRef 3),
             (''writethumbnail'', PBool True),
             (''writeinfojson'', PBool True),
             (''noplaylist'', PBool False),
             (''ignoreerrors'', PBool True),
             (''overwrites'', PBool False)]]"

definition AUDIO_FORMATS :: "string list" where
  "AUDIO_FORMATS = [''mp3'', ''flac'', ''wav'', ''m4a'', ''ogg'']"

definition VIDEO_FORMATS :: "(string \<times> string) list" where
  "VIDEO_FORMATS =
     [(''mp4'', ''best[ext=mp4]''), (''webm'', ''best[ext=webm]''),
      (''mkv'', ''best[ext=mkv]''), (''avi'', ''best[ext=avi]'')]"

definition VIDEO_QUALITIES :: "(string \<times> string) list" where
  "VIDEO_QUALITIES =
     [(''144p'', ''worst[height<=144]''), (''240p'', ''best[height<=240]''),
      (''360p'', ''best[height<=360]''), (''480p'', ''best[height<=480]''),
      (''720p'', ''best[height<=720]''), (''1080p'', ''best[height<=1080]''),
      (''1440p'', ''best[height<=1440]''), (''2160p'', ''best[height<=2160]''),
      (''Mejor'', ''best'')]"

text \<open>
  The value of an object with everything it refers to, down to a given depth: what a
  reader of the dictionary sees.
\<close>

datatype view =
    VStr string | VBool bool | VHook | VDangling
  | VDict "(string \<times> view) list" | VList "view list"

fun view_of :: "nat \<Rightarrow> store \<Rightarrow> pyval \<Rightarrow> view" where
  "view_of n h (PStr s) = VStr s"
| "view_of n h (PBool b) = VBool b"
| "view_of n h PHook = VHook"
| "view_of 0 h (PRef a) = VDangling"
| "view_of (Suc n) h (PRef a) =
     (case deref h a of
        None \<Rightarrow> VDangling
      | Some (PDict kvs) \<Rightarrow> VDict (map (\<lambda>kv. (fst kv, view_of n h (snd kv))) kvs)
      | Some (PList vs) \<Rightarrow> VList (map (view_of n h) vs))"

text \<open>A dictionary of options is three levels deep.\<close>

definition options_view :: "store \<Rightarrow> addr \<Rightarrow> view" where
  "options_view h a = view_of 3 h (PRef a)"

subsection \<open>YouTubeDownloader._build_download_options\<close>

text \<open>
  \<open>hook\<close> says whether \<open>self.progress_hook\<close> is set. \<open>output_path\<close> is \<open>None\<close>
  or a string; the empty string counts as not given.
\<close>

definition set_output_template :: "string option \<Rightarrow> bool \<Rightarrow> pyval \<Rightarrow> store \<Rightarrow> exn + store" where
  "set_output_template output_path playlist_mode options h =
     (case output_path of
        None \<Rightarrow> Inr h
      | Some path \<Rightarrow>
          if path = [] then Inr h
          else if playlist_mode
          then dict_setitem h options ''outtmpl''
                 (PStr (path @ ''/%(playlist_title)s/%(title)s.%(ext)s''))
          else dict_setitem h options ''outtmpl'' (PStr (path @ ''/%(title)s.%(ext)s'')))"

definition set_first_postprocessor :: "string \<Rightarrow> string \<Rightarrow> pyval \<Rightarrow> store \<Rightarrow> exn + store" where
  "set_first_postprocessor k v options h =
     (case dict_getitem h options ''postprocessors'' of
        Inl e \<Rightarrow> Inl e
      | Inr postprocessors \<Rightarrow>
          (case list_getitem h postprocessors 0 of
             Inl e \<Rightarrow> Inl e
           | Inr first \<Rightarrow> dict_setitem h first k (PStr v)))"

definition set_output_format :: "string \<Rightarrow> string \<Rightarrow> pyval \<Rightarrow> store \<Rightarrow> exn + store" where
  "set_output_format output_format quality options h =
     (if output_format \<in> set AUDIO_FORMATS
      then (case dict_setitem h options ''format'' (PStr ''bestaudio/best'') of
              Inl e \<Rightarrow> Inl e
            | Inr h1 \<Rightarrow>
                (case set_first_postprocessor ''preferredcodec'' output_format options h1 of
                   Inl e \<Rightarrow> Inl e
                 | Inr h2 \<Rightarrow> set_first_postprocessor ''preferredquality'' quality options h2))
      else (case map_of VIDEO_FORMATS output_format of
              Some selector \<Rightarrow>
                (case dict_setitem h options ''format'' (PStr selector) of
                   Inl e \<Rightarrow> Inl e
                 | Inr h1 \<Rightarrow>
                     (let (thumbnail, h2) = alloc h1 (PDict [(''key'', PStr ''EmbedThumbnail'')]);
                          (metadata, h3) = alloc h2 (PDict [(''key'', PStr ''FFmpegMetadata'')]);
                          (postprocessors, h4) = alloc h3 (PList [PRef thumbnail, PRef metadata])
                      in dict_setitem h4 options ''postprocessors'' (PRef postprocessors)))
            | None \<Rightarrow> Inr h))"

definition set_progress_hooks :: "bool \<Rightarrow> pyval \<Rightarrow> store \<Rightarrow> exn + store" where
  "set_progress_hooks hook options h =
     (if hook
      then (let (hooks, h1) = alloc h (PList [PHook])
            in dict_setitem h1 options ''progress_hooks'' (PRef hooks))
      else Inr h)"

definition build_download_options ::
  "bool \<Rightarrow> string \<Rightarrow> string \<Rightarrow> string option \<Rightarrow> bool \<Rightarrow> store \<Rightarrow> exn + (addr \<times> store)" where
  "build_download_options hook output_format quality output_path playlist_mode h =
     (case dict_copy h DEFAULT_DOWNLOAD_CONFIG of
        Inl e \<Rightarrow> Inl e
      | Inr (options, h1) \<Rightarrow>
          (case set_output_template output_path playlist_mode (PRef options) h1 of
             Inl e \<Rightarrow> Inl e
           | Inr h2 \<Rightarrow>
               (case set_output_format output_format quality (PRef options) h2 of
                  Inl e \<Rightarrow> Inl e
                | Inr h3 \<Rightarrow>
                    (case set_progress_hooks hook (PRef options) h3 of
                       Inl e \<Rightarrow> Inl e
                     | Inr h4 \<Rightarrow> Inr (options, h4)))))"

text \<open>
  What the builder relies on: \<open>d['postprocessors'][0]\<close> is a dictionary, for the
  dictionary \<open>d\<close> at an address, and in particular for \<open>DEFAULT_DOWNLOAD_CONFIG\<close>.
\<close>

definition is_dict :: "store \<Rightarrow> pyval \<Rightarrow> bool" where
  "is_dict h v =
     (case v of
        PRef a \<Rightarrow> (case deref h a of Some (PDict kvs) \<Rightarrow> True | _ \<Rightarrow> False)
      | _ \<Rightarrow> False)"

definition postprocessors_ok :: "store \<Rightarrow> addr \<Rightarrow> bool" where
  "postprocessors_ok h a =
     (case dict_getitem h (PRef a) ''postprocessors'' of
        Inl e \<Rightarrow> False
      | Inr postprocessors \<Rightarrow>
          (case list_getitem h postprocessors 0 of
             Inl e \<Rightarrow> False
           | Inr first \<Rightarrow> is_dict h first))"

definition config_ok :: "store \<Rightarrow> bool" where
  "config_ok h = postprocessors_ok h DEFAULT_DOWNLOAD_CONFIG"

text \<open>
  What a reader of \<open>DEFAULT_DOWNLOAD_CONFIG\<close> sees when the first postprocessor names a
  given codec and quality; config.py writes \<open>mp3\<close> and \<open>192\<close>.
\<close>

definition defaults_with :: "string \<Rightarrow> string \<Rightarrow> string \<Rightarrow> view" where
  "defaults_with downloads_dir codec quality =
     VDict [(''outtmpl'', VStr (downloads_dir @ ''/%(uploader)s/%(title)s.%(ext)s'')),
            (''format'', VStr ''bestaudio/best''),
            (''postprocessors'',
               VList [VDict [(''key'', VStr ''FFmpegExtractAudio''),
                             (''preferredcodec'', VStr codec),
                             (''preferredquality'', VStr quality)],
                      VDict [(''key'', VStr ''EmbedThumbnail'')],
                      VDict [(''key'', VStr ''FFmpegMetadata'')]]),
            (''writethumbnail'', VBool True), (''writeinfojson'', VBool True),
            (''noplaylist'', VBool False), (''ignoreerrors'', VBool True),
            (''overwrites'', VBool False)]"

text \<open>The options built for a video format, with no hook and outside playlist mode.\<close>

definition video_options :: "string \<Rightarrow> string \<Rightarrow> view" where
  "video_options output_path selector =
     VDict [(''outtmpl'', VStr (output_path @ ''/%(title)s.%(ext)s'')),
            (''format'', VStr selector),
            (''postprocessors'',
               VList [VDict [(''key'', VStr ''EmbedThumbnail'')],
                      VDict [(''key'', VStr ''FFmpegMetadata'')]]),
            (''writethumbnail'', VBool True), (''writeinfojson'', VBool True),
            (''noplaylist'', VBool False), (''ignoreerrors'', VBool True),
            (''overwrites'', VBool False)]"

section \<open>The downloader (downloader.py)\<close>

text \<open>
  The information dictionaries of the engine, with the keys that the code reads:
  \<open>title\<close>, \<open>id\<close> and \<open>entries\<close>, each present or not, and the names of the other
  keys (a dictionary with no key at all is false in a condition). An entry of a playlist
  may be \<open>None\<close>.
\<close>

record entry =
  entry_id :: "string option"
  entry_title :: "string option"
  entry_other_keys :: "string list"

record video_info =
  info_title :: "string option"
  info_entries :: "entry option list option"
  info_other_keys :: "string list"

definition entry_truthy :: "entry option \<Rightarrow> bool" where
  "entry_truthy e =
     (case e of
        None \<Rightarrow> False
      | Some d \<Rightarrow> entry_id d \<noteq> None \<or> entry_title d \<noteq> None \<or> entry_other_keys d \<noteq> [])"

definition info_truthy :: "video_info \<Rightarrow> bool" where
  "info_truthy i = (info_title i \<noteq> None \<or> info_entries i \<noteq> None \<or> info_other_keys i \<noteq> [])"

text \<open>
  What lies outside the program. The engine: \<open>extract_info\<close> raises or returns
  information (possibly \<open>None\<close>); creating \<open>YoutubeDL(options)\<close> and calling
  \<open>download\<close> on a URL raise or complete, as the options that they see and the URL
  decide. \<open>sanitize_filename\<close> is the engine's, \<open>path_join\<close> is \<open>Path(a) / b\<close>.
  \<open>sidecars folder\<close> is \<open>None\<close> where \<open>folder\<close> does not exist, and otherwise the
  files that \<open>glob("*.info.json")\<close> lists there, each with what \<open>open\<close> and
  \<open>json.load\<close> yield on it.

  The other thread: \<open>cancel_current_download\<close> may be called while the \<open>i\<close>-th call
  of the engine in a playlist is in flight (\<open>cancel_in_flight i\<close>, \<open>i\<close> from 1), or
  after the \<open>i\<close>-th call has completed and before the next iteration begins
  (\<open>cancel_between i\<close>; for \<open>i = 0\<close>, after the flag has been reset and before the
  first iteration).
\<close>

record world =
  extract_info :: "string \<Rightarrow> exn + video_info option"
  ydl_init :: "view \<Rightarrow> exn option"
  ydl_download :: "view \<Rightarrow> string \<Rightarrow> exn option"
  sanitize_filename :: "string \<Rightarrow> string"
  path_join :: "string \<Rightarrow> string \<Rightarrow> string"
  sidecars :: "string \<Rightarrow> (string \<times> (exn + json)) list option"
  cancel_in_flight :: "nat \<Rightarrow> bool"
  cancel_between :: "nat \<Rightarrow> bool"

text \<open>
  The counters of \<open>ProgressHook\<close>, and the downloader with the store of the module
  \<open>config\<close>. \<open>engine_calls\<close> is a ghost: the URLs passed to \<open>ydl.download\<close> so far,
  in order.
\<close>

record ProgressHook =
  total_files :: nat
  completed_files :: nat

record downloader =
  base_path :: string
  progress_hook :: "ProgressHook option"
  is_downloading :: bool
  cancel_download :: bool
  config_store :: store
  engine_calls :: "string list"

definition cancel_current_download :: "downloader \<Rightarrow> downloader" where
  "cancel_current_download d = d\<lparr> cancel_download := True \<rparr>"

definition other_thread :: "bool \<Rightarrow> downloader \<Rightarrow> downloader" where
  "other_thread cancels d = (if cancels then cancel_current_download d else d)"

subsection \<open>get_video_info\<close>

definition get_video_info :: "world \<Rightarrow> string \<Rightarrow> video_info option" where
  "get_video_info w url = (case extract_info w url of Inl e \<Rightarrow> None | Inr info \<Rightarrow> info)"

subsection \<open>_get_downloaded_ids\<close>

text \<open>
  The key under which a set holds a value: \<open>True\<close> and \<open>1\<close> are the same element,
  lists and dictionaries cannot be elements. The set of identifiers is a list without
  repetition.
\<close>

fun hash_key :: "json \<Rightarrow> json option" where
  "hash_key (JBool b) = Some (JNum (if b then 1 else 0))"
| "hash_key (JArr xs) = None"
| "hash_key (JObj kvs) = None"
| "hash_key v = Some v"

text \<open>
  The loop over the sidecar files. The \<open>except\<close> clause names \<open>JSONDecodeError\<close>,
  \<open>KeyError\<close> and \<open>FileNotFoundError\<close>; any other exception leaves the function.
  \<open>data.get\<close> exists on a dictionary only.
\<close>

fun scan_sidecars :: "(string \<times> (exn + json)) list \<Rightarrow> json list \<Rightarrow> exn + json list" where
  "scan_sidecars [] downloaded_ids = Inr downloaded_ids"
| "scan_sidecars ((file, loaded) # files) downloaded_ids =
     (case loaded of
        Inl e \<Rightarrow>
          if e = JSONDecodeError \<or> e = KeyError \<or> e = FileNotFoundError
          then scan_sidecars files downloaded_ids
          else Inl e
      | Inr (JObj data) \<Rightarrow>
          (case map_of data ''id'' of
             None \<Rightarrow> scan_sidecars files downloaded_ids
           | Some video_id \<Rightarrow>
               if truthy video_id
               then (case hash_key video_id of
                       None \<Rightarrow> Inl TypeError
                     | Some k \<Rightarrow> scan_sidecars files (List.insert k downloaded_ids))
               else scan_sidecars files downloaded_ids)
      | Inr _ \<Rightarrow> Inl AttributeError)"

definition get_downloaded_ids :: "world \<Rightarrow> string \<Rightarrow> exn + json list" where
  "get_downloaded_ids w folder_path =
     (case sidecars w folder_path of
        None \<Rightarrow> Inr []
      | Some files \<Rightarrow> scan_sidecars files [])"

text \<open>
  A sidecar file that the \<open>except\<close> clause does not cover: reading it raises something
  else than the three exceptions named, or it holds JSON that is not an object.
\<close>

definition bad_sidecar :: "string \<times> (exn + json) \<Rightarrow> bool" where
  "bad_sidecar f =
     (case snd f of
        Inl e \<Rightarrow> e \<noteq> JSONDecodeError \<and> e \<noteq> KeyError \<and> e \<noteq> FileNotFoundError
      | Inr (JObj data) \<Rightarrow> False
      | Inr other \<Rightarrow> True)"

subsection \<open>download_single_video\<close>

text \<open>
  The body of the \<open>try\<close>: the result or the exception raised, and the state reached.
  \<open>output_path or str(self.base_path)\<close> is the given path unless it is \<open>None\<close> or
  empty.
\<close>

definition path_or :: "string option \<Rightarrow> string \<Rightarrow> string" where
  "path_or output_path other =
     (case output_path of None \<Rightarrow> other | Some path \<Rightarrow> if path = [] then other else path)"

definition single_video_body ::
  "world \<Rightarrow> string \<Rightarrow> string \<Rightarrow> string \<Rightarrow> string option \<Rightarrow> downloader
   \<Rightarrow> (exn + bool) \<times> downloader" where
  "single_video_body w url output_format quality output_path d0 =
     (let d1 = d0\<lparr> is_downloading := True, cancel_download := False \<rparr> in
      case build_download_options (progress_hook d1 \<noteq> None) output_format quality
             (Some (path_or output_path (base_path d1))) False (config_store d1) of
        Inl e \<Rightarrow> (Inl e, d1)
      | Inr (options, h) \<Rightarrow>
          (let d2 = d1\<lparr> config_store := h \<rparr> in
           case ydl_init w (options_view h options) of
             Some e \<Rightarrow> (Inl e, d2)
           | None \<Rightarrow>
               (let d3 = d2\<lparr> engine_calls := engine_calls d2 @ [url] \<rparr> in
                case ydl_download w (options_view h options) url of
                  Some e \<Rightarrow> (Inl e, d3)
                | None \<Rightarrow> (Inr True, d3))))"

text \<open>
  \<open>except Exception\<close> turns every exception into \<open>False\<close>; \<open>finally\<close> resets
  \<open>is_downloading\<close>. The result stays in the sum type, so that an exception that left
  the function would show.
\<close>

definition catch_all :: "(exn + bool) \<times> downloader \<Rightarrow> (exn + bool) \<times> downloader" where
  "catch_all r =
     ((case fst r of Inl e \<Rightarrow> Inr False | Inr b \<Rightarrow> Inr b),
      (snd r)\<lparr> is_downloading := False \<rparr>)"

definition download_single_video ::
  "world \<Rightarrow> string \<Rightarrow> string \<Rightarrow> string \<Rightarrow> string option \<Rightarrow> downloader
   \<Rightarrow> (exn + bool) \<times> downloader" where
  "download_single_video w url output_format quality output_path d =
     catch_all (single_video_body w url output_format quality output_path d)"

subsection \<open>download_playlist\<close>

definition watch_url :: "string option \<Rightarrow> string" where
  "watch_url video_id =
     ''https://www.youtube.com/watch?v='' @ (case video_id of None \<Rightarrow> ''None'' | Some s \<Rightarrow> s)"

definition id_in :: "string option \<Rightarrow> json list \<Rightarrow> bool" where
  "id_in video_id downloaded_ids =
     (case video_id of None \<Rightarrow> JNull \<in> set downloaded_ids | Some s \<Rightarrow> JStr s \<in> set downloaded_ids)"

fun urls_to_download :: "bool \<Rightarrow> json list \<Rightarrow> entry option list \<Rightarrow> string list" where
  "urls_to_download skip_existing downloaded_ids [] = []"
| "urls_to_download skip_existing downloaded_ids (None # entries) =
     urls_to_download skip_existing downloaded_ids entries"
| "urls_to_download skip_existing downloaded_ids (Some e # entries) =
     (if \<not> skip_existing \<or> \<not> id_in (entry_id e) downloaded_ids
      then watch_url (entry_id e) # urls_to_download skip_existing downloaded_ids entries
      else urls_to_download skip_existing downloaded_ids entries)"

text \<open>
  The loop over the URLs; \<open>i\<close> is the number of calls of the engine made so far. The
  flag is read at the head of the iteration only. The call of the engine is given the
  options and the URL, not the flag: a cancellation that arrives while it is in flight
  sets the flag and nothing else.
\<close>

fun download_loop ::
  "world \<Rightarrow> view \<Rightarrow> nat \<Rightarrow> string list \<Rightarrow> downloader \<Rightarrow> (exn + unit) \<times> downloader" where
  "download_loop w options i [] d = (Inr (), d)"
| "download_loop w options i (url_to_download # urls) d =
     (if cancel_download d then (Inr (), d)
      else (let d1 = d\<lparr> engine_calls := engine_calls d @ [url_to_download] \<rparr>;
                d2 = other_thread (cancel_in_flight w (Suc i)) d1
            in case ydl_download w options url_to_download of
                 Some e \<Rightarrow> (Inl e, d2)
               | None \<Rightarrow>
                   download_loop w options (Suc i) urls
                     (other_thread (cancel_between w (Suc i)) d2)))"

definition reset_progress :: "entry option list \<Rightarrow> downloader \<Rightarrow> downloader" where
  "reset_progress entries d =
     (case progress_hook d of
        None \<Rightarrow> d
      | Some hook \<Rightarrow>
          d\<lparr> progress_hook :=
               Some (hook\<lparr> total_files := length (filter entry_truthy entries),
                          completed_files := 0 \<rparr>) \<rparr>)"

text \<open>
  \<open>playlist_info.get('entries', [])\<close>, and the folder of the playlist:
  \<open>Path(output_path) / safe_title\<close>, where the title defaults to \<open>Playlist\<close> and the
  output path to the base path.
\<close>

definition playlist_entries :: "video_info \<Rightarrow> entry option list" where
  "playlist_entries playlist_info =
     (case info_entries playlist_info of None \<Rightarrow> [] | Some entries \<Rightarrow> entries)"

definition playlist_folder :: "world \<Rightarrow> video_info \<Rightarrow> string option \<Rightarrow> downloader \<Rightarrow> string" where
  "playlist_folder w playlist_info output_path d =
     path_join w (path_or output_path (base_path d))
       (sanitize_filename w
          (case info_title playlist_info of None \<Rightarrow> ''Playlist'' | Some t \<Rightarrow> t))"

definition playlist_body ::
  "world \<Rightarrow> string \<Rightarrow> string \<Rightarrow> string \<Rightarrow> string option \<Rightarrow> bool \<Rightarrow> downloader
   \<Rightarrow> (exn + bool) \<times> downloader" where
  "playlist_body w url output_format quality output_path skip_existing d0 =
     (let d1 = other_thread (cancel_between w 0)
                 (d0\<lparr> is_downloading := True, cancel_download := False \<rparr>) in
      case get_video_info w url of
        None \<Rightarrow> (Inr False, d1)
      | Some playlist_info \<Rightarrow>
          if \<not> info_truthy playlist_info then (Inr False, d1)
          else
            (let d2 = reset_progress (playlist_entries playlist_info) d1 in
             case (if skip_existing
                   then get_downloaded_ids w (playlist_folder w playlist_info output_path d1)
                   else Inr []) of
               Inl e \<Rightarrow> (Inl e, d2)
             | Inr downloaded_ids \<Rightarrow>
                 (let urls = urls_to_download skip_existing downloaded_ids
                               (playlist_entries playlist_info) in
                  if urls = [] then (Inr True, d2)
                  else
                    (case build_download_options (progress_hook d2 \<noteq> None) output_format
                            quality (Some (path_or output_path (base_path d2))) True
                            (config_store d2) of
                       Inl e \<Rightarrow> (Inl e, d2)
                     | Inr (options, h) \<Rightarrow>
                         (let d3 = d2\<lparr> config_store := h \<rparr> in
                          case ydl_init w (options_view h options) of
                            Some e \<Rightarrow> (Inl e, d3)
                          | None \<Rightarrow>
                              (case download_loop w (options_view h options) 0 urls d3 of
                                 (Inl e, d4) \<Rightarrow> (Inl e, d4)
                               | (Inr u, d4) \<Rightarrow> (Inr (\<not> cancel_download d4), d4)))))))"

definition download_playlist ::
  "world \<Rightarrow> string \<Rightarrow> string \<Rightarrow> string \<Rightarrow> string option \<Rightarrow> bool \<Rightarrow> downloader
   \<Rightarrow> (exn + bool) \<times> downloader" where
  "download_playlist w url output_format quality output_path skip_existing d =
     catch_all (playlist_body w url output_format quality output_path skip_existing d)"

subsection \<open>A downloader and a world to run it in\<close>

text \<open>
  The downloader as \<open>__init__\<close> leaves it, in the store of the freshly loaded module;
  a playlist of five entries; and a world in which the engine resolves every URL to
  that playlist and \<open>engine\<close> and \<open>cancels\<close> say which downloads raise and when the
  other thread cancels.
\<close>

definition new_downloader :: "string \<Rightarrow> string \<Rightarrow> downloader" where
  "new_downloader path downloads_dir =
     \<lparr> base_path = path, progress_hook = None, is_downloading = False,
       cancel_download = False, config_store = initial_store downloads_dir,
       engine_calls = [] \<rparr>"

definition five_entries :: video_info where
  "five_entries =
     \<lparr> info_title = Some ''Mix'',
       info_entries = Some (map (\<lambda>i. Some \<lparr> entry_id = Some i, entry_title = None,
                                              entry_other_keys = [] \<rparr>)
                              [''v1'', ''v2'', ''v3'', ''v4'', ''v5'']),
       info_other_keys = [] \<rparr>"

definition test_world ::
  "(string \<Rightarrow> exn option) \<Rightarrow> (string \<Rightarrow> (string \<times> (exn + json)) list option)
   \<Rightarrow> (nat \<Rightarrow> bool) \<Rightarrow> world" where
  "test_world engine folders cancels =
     \<lparr> extract_info = (\<lambda>u. Inr (Some five_entries)),
       ydl_init = (\<lambda>v. None),
       ydl_download = (\<lambda>v. engine),
       sanitize_filename = (\<lambda>t. t),
       path_join = (\<lambda>a b. a @ ''/'' @ b),
       sidecars = folders,
       cancel_in_flight = (\<lambda>i. False),
       cancel_between = cancels \<rparr>"

text \<open>
  The invariant of the loop: the counter is the number of directories removed, the tree
  is the initial one without them, the root is not among them, and the removed
  directories followed by those still to visit are in order of descending depth.
\<close>

definition clean_inv ::
  "node list \<Rightarrow> string list \<Rightarrow> string list list \<Rightarrow> clean_state \<Rightarrow> bool" where
  "clean_inv fs base todo s =
     (deleted_count s = length (removed s)
      \<and> tree s = filter (\<lambda>n. node_path n \<notin> set (removed s)) fs
      \<and> base \<notin> set (removed s)
      \<and> sorted_wrt (\<lambda>p q. length q \<le> length p) (removed s @ todo))"

section \<open>Verified properties\<close>

subsection \<open>Counting dictionaries\<close>

lemma sum_count_up:
  assumes "distinct (map fst d)"
  shows "sum_list (map snd (count_up d k)) = Suc (sum_list (map snd d))"
  using assms unfolding count_up_def
  by (induction d) (auto simp: rev_image_eqI)

lemma distinct_count_up: "distinct (map fst d) \<Longrightarrow> distinct (map fst (count_up d k))"
  unfolding count_up_def by (simp add: distinct_update)

subsection \<open>Storage information\<close>

lemma count_extensions_sum:
  "distinct (map fst exts) \<Longrightarrow>
   distinct (map fst (count_extensions ns exts)) \<and>
   sum_list (map snd (count_extensions ns exts)) =
     sum_list (map snd exts) + length (filter (\<lambda>n. node_kind n = File) ns)"
  by (induction ns arbitrary: exts) (auto simp: sum_count_up distinct_count_up)

lemma kinds_partition:
  "length ns = length (filter (\<lambda>n. node_kind n = File) ns)
             + length (filter (\<lambda>n. node_kind n = Dir) ns)
             + length (filter (\<lambda>n. node_kind n = Other) ns)"
proof (induction ns)
  case Nil
  show ?case by simp
next
  case (Cons n ns)
  then show ?case by (cases "node_kind n") auto
qed

text \<open>
  C10. \<open>file_count\<close> is the number of all entries below the root: the regular files, the
  directories and whatever else is listed. So it is at least \<open>folder_count\<close> and at
  least the sum of the per-extension counts (which is the number of regular files), and
  it exceeds the number of regular files by the number of directories and other entries.
\<close>

theorem file_count_counts_every_entry:
  "file_count (get_storage_info fs base) = length (rglob_all fs base)
   \<and> folder_count (get_storage_info fs base) \<le> file_count (get_storage_info fs base)
   \<and> sum_list (map snd (extensions (get_storage_info fs base)))
        \<le> file_count (get_storage_info fs base)
   \<and> sum_list (map snd (extensions (get_storage_info fs base)))
        = length (filter (\<lambda>n. node_kind n = File) (rglob_all fs base))
   \<and> file_count (get_storage_info fs base)
        = length (filter (\<lambda>n. node_kind n = File) (rglob_all fs base))
          + folder_count (get_storage_info fs base)
          + length (filter (\<lambda>n. node_kind n = Other) (rglob_all fs base))"
proof -
  let ?ns = "rglob_all fs base"
  have ext: "sum_list (map snd (count_extensions ?ns [])) = length (filter (\<lambda>n. node_kind n = File) ?ns)"
    using count_extensions_sum [of "[]" ?ns] by simp
  have part: "length ?ns = length (filter (\<lambda>n. node_kind n = File) ?ns)
             + length (filter (\<lambda>n. node_kind n = Dir) ?ns)
             + length (filter (\<lambda>n. node_kind n = Other) ?ns)"
    by (rule kinds_partition)
  show ?thesis
    unfolding get_storage_info_def using ext part by simp
qed

subsection \<open>Pruning empty directories\<close>

lemma folders_sorted: "sorted_wrt (\<lambda>p q. length q \<le> length p) (folders_to_visit fs base)"
proof -
  have "sorted (map (\<lambda>p. - int (length (node_path p))) (sorted_by_depth_desc (rglob_all fs base)))"
    unfolding sorted_by_depth_desc_def by (rule sorted_sort_key)
  then have "sorted_wrt (\<lambda>x y. - int (length (node_path x)) \<le> - int (length (node_path y)))
     (sorted_by_depth_desc (rglob_all fs base))"
    by (simp add: sorted_map)
  then show ?thesis
    unfolding folders_to_visit_def by (simp add: sorted_wrt_map)
qed

lemma clean_step_inv:
  assumes "clean_inv fs base (f # todo) s"
  shows "clean_inv fs base todo (clean_step e base f s)"
proof -
  have "sorted_wrt (\<lambda>p q. length q \<le> length p) (removed s @ todo)"
    and "sorted_wrt (\<lambda>p q. length q \<le> length p) ((removed s @ [f]) @ todo)"
    using assms by (auto simp: clean_inv_def sorted_wrt_append)
  moreover have "filter (\<lambda>n. node_path n \<notin> set (removed s) \<and> node_path n \<noteq> f) fs
      = filter (\<lambda>n. node_path n \<noteq> f \<and> node_path n \<notin> set (removed s)) fs"
    by (rule filter_cong) auto
  ultimately show ?thesis
    using assms by (auto simp: clean_inv_def clean_step_def rmdir_def)
qed

lemma clean_loop_inv:
  "clean_inv fs base todo s \<Longrightarrow> clean_inv fs base [] (clean_loop e base todo s)"
proof (induction todo arbitrary: s)
  case Nil
  then show ?case by simp
next
  case (Cons f todo)
  from Cons.IH [OF clean_step_inv [OF Cons.prems]] show ?case by simp
qed

lemma three_orders:
  assumes "length fs = 3" "set fs = {x, y, z}" "x \<noteq> y" "y \<noteq> z" "x \<noteq> z"
  shows "fs = [x, y, z] \<or> fs = [x, z, y] \<or> fs = [y, x, z]
       \<or> fs = [y, z, x] \<or> fs = [z, x, y] \<or> fs = [z, y, x]"
proof -
  from assms(1) obtain p q s where fs: "fs = [p, q, s]"
    by (metis length_0_conv length_Suc_conv numeral_3_eq_3)
  have "card (set fs) = length fs" using assms by simp
  then have "distinct fs" by (rule card_distinct)
  then have d: "p \<noteq> q" "q \<noteq> s" "p \<noteq> s" unfolding fs by auto
  have m: "p \<in> {x, y, z}" "q \<in> {x, y, z}" "s \<in> {x, y, z}"
    using assms(2) unfolding fs by auto
  show ?thesis unfolding fs using d m by auto
qed

lemma butlast_ne_append: "xs \<noteq> [] \<Longrightarrow> butlast r \<noteq> r @ xs"
proof
  assume "xs \<noteq> []" "butlast r = r @ xs"
  then have "length (butlast r) = length (r @ xs)" by simp
  with \<open>xs \<noteq> []\<close> show False by (cases xs) auto
qed

lemmas clean_unfold =
  clean_empty_folders_def folders_to_visit_def sorted_by_depth_desc_def rglob_all_def
  is_dir_def below_def dir_node_def clean_step_def iterdir_def rmdir_def butlast_ne_append
  butlast_append

lemma clean_root_a_b:
  assumes "length fs = 3"
      and "set fs = {dir_node r, dir_node (r @ [a]), dir_node (r @ [a, b])}"
  shows "clean_empty_folders (\<lambda>_. False) fs r
       = \<lparr> tree = [dir_node r], deleted_count = 2, removed = [r @ [a, b], r @ [a]] \<rparr>"
proof -
  let ?r = "dir_node r" and ?a = "dir_node (r @ [a])" and ?b = "dir_node (r @ [a, b])"
  have ne: "?r \<noteq> ?a" "?a \<noteq> ?b" "?r \<noteq> ?b" by (simp_all add: dir_node_def)
  from three_orders [OF assms ne]
  consider "fs = [?r, ?a, ?b]" | "fs = [?r, ?b, ?a]" | "fs = [?a, ?r, ?b]"
    | "fs = [?a, ?b, ?r]" | "fs = [?b, ?r, ?a]" | "fs = [?b, ?a, ?r]" by blast
  then show ?thesis
  proof cases
    case 1 then show ?thesis by (simp add: clean_unfold)
  next
    case 2 then show ?thesis by (simp add: clean_unfold)
  next
    case 3 then show ?thesis by (simp add: clean_unfold)
  next
    case 4 then show ?thesis by (simp add: clean_unfold)
  next
    case 5 then show ?thesis by (simp add: clean_unfold)
  next
    case 6 then show ?thesis by (simp add: clean_unfold)
  qed
qed

text \<open>
  C8. The directories are visited in order of descending number of path parts, and are
  removed in that order; the root is never removed; the returned count is the number of
  directories removed, and the tree that is left is the initial one without them. On the
  tree \<open>root/a/b\<close> of empty directories, in whatever order the system lists it and with
  no permission error, one call removes \<open>b\<close>, then \<open>a\<close>, leaves the root and returns 2.
\<close>

theorem clean_empty_folders_deepest_first:
  "sorted_wrt (\<lambda>p q. length q \<le> length p) (folders_to_visit fs base)
   \<and> sorted_wrt (\<lambda>p q. length q \<le> length p) (removed (clean_empty_folders os_error fs base))
   \<and> base \<notin> set (removed (clean_empty_folders os_error fs base))
   \<and> deleted_count (clean_empty_folders os_error fs base)
        = length (removed (clean_empty_folders os_error fs base))
   \<and> tree (clean_empty_folders os_error fs base)
        = filter (\<lambda>n. node_path n \<notin> set (removed (clean_empty_folders os_error fs base))) fs
   \<and> (length ls = 3
        \<and> set ls = {dir_node r, dir_node (r @ [a]), dir_node (r @ [a, b])}
      \<longrightarrow> clean_empty_folders (\<lambda>_. False) ls r
            = \<lparr> tree = [dir_node r], deleted_count = 2,
                removed = [r @ [a, b], r @ [a]] \<rparr>)"
proof -
  have "clean_inv fs base (folders_to_visit fs base)
          \<lparr> tree = fs, deleted_count = 0, removed = [] \<rparr>"
    by (simp add: clean_inv_def folders_sorted)
  then have "clean_inv fs base [] (clean_empty_folders os_error fs base)"
    unfolding clean_empty_folders_def by (rule clean_loop_inv)
  then show ?thesis
    using folders_sorted [of fs base] clean_root_a_b [of ls r a b]
    by (simp add: clean_inv_def)
qed

theorem clean_empty_folders_deepest_first_witness:
  "clean_empty_folders (\<lambda>_. False)
     [dir_node [''root'', ''a''], dir_node [''root''], dir_node [''root'', ''a'', ''b'']] [''root'']
   = \<lparr> tree = [dir_node [''root'']], deleted_count = 2,
       removed = [[''root'', ''a'', ''b''], [''root'', ''a'']] \<rparr>"
proof -
  let ?ls = "[dir_node [''root'', ''a''], dir_node [''root''], dir_node [''root'', ''a'', ''b'']]"
  have "length ?ls = 3
      \<and> set ?ls = {dir_node [''root''], dir_node ([''root''] @ [''a'']),
                    dir_node ([''root''] @ [''a'', ''b''])}"
    by auto
  with clean_empty_folders_deepest_first
    [of "[]" "[]" "\<lambda>_. False" ?ls "[''root'']" "''a''" "''b''"]
  show ?thesis by simp
qed

subsection \<open>The quality report\<close>

lemma label_bitrate_cases:
  "label_bitrate (quality_label r) = (if r \<ge> 320 then Inr 320 else if r \<ge> 256 then Inr 256
      else if r \<ge> 192 then Inr 192 else if r \<ge> 128 then Inr 128 else Inl ValueError)"
  by (simp add: quality_label_def label_bitrate_def py_index_def py_int_def strip_def is_space_def
      parse_digits_def digit_val_def)

lemma paren_in_label: "CHR ''('' \<in> set (quality_label r)"
  by (simp add: quality_label_def)

lemma label_sum_raises:
  assumes "fst ` set items \<subseteq> range quality_label"
      and "quality_label 0 \<in> fst ` set items"
  shows "label_sum items = Inl ValueError"
  using assms
proof (induction items)
  case Nil
  then show ?case by simp
next
  case (Cons kv items)
  obtain k v where kv: "kv = (k, v)" by (cases kv)
  from Cons.prems(1) kv obtain r where r: "k = quality_label r" by auto
  show ?case
  proof (cases "r \<ge> 128")
    case False
    then show ?thesis by (simp add: kv r paren_in_label label_bitrate_cases)
  next
    case True
    then have "k \<noteq> quality_label 0" by (auto simp: r quality_label_def)
    with Cons.prems kv have "quality_label 0 \<in> fst ` set items" by auto
    with Cons.IH Cons.prems(1) have "label_sum items = Inl ValueError" by auto
    then show ?thesis using True by (simp add: kv r paren_in_label label_bitrate_cases)
  qed
qed

lemma keys_count_up: "fst ` set (count_up d k) = insert k (fst ` set d)"
proof -
  have "set (map fst (count_up d k)) = insert k (set (map fst d))"
    unfolding count_up_def by (auto simp: update_keys)
  then show ?thesis by simp
qed

lemma report_step_keys:
  "fst ` set (quality_distribution s) \<subseteq> range quality_label \<Longrightarrow>
   fst ` set (quality_distribution (report_step mg f s)) \<subseteq> range quality_label"
  unfolding report_step_def by (simp add: keys_count_up split: analysis.splits)

lemma report_step_low:
  "quality_label 0 \<in> fst ` set (quality_distribution s) \<or> low_file mg f \<Longrightarrow>
   quality_label 0 \<in> fst ` set (quality_distribution (report_step mg f s))"
  unfolding report_step_def low_file_def
  by (auto simp: keys_count_up quality_label_def split: analysis.splits)

lemma report_loop_keys:
  "fst ` set (quality_distribution s) \<subseteq> range quality_label \<Longrightarrow>
   fst ` set (quality_distribution (report_loop mg ns s)) \<subseteq> range quality_label"
proof (induction ns arbitrary: s)
  case Nil
  then show ?case by simp
next
  case (Cons f ns)
  from Cons.IH [OF report_step_keys [OF Cons.prems]] show ?case by simp
qed

lemma report_loop_low:
  "quality_label 0 \<in> fst ` set (quality_distribution s) \<or> list_ex (low_file mg) ns \<Longrightarrow>
   quality_label 0 \<in> fst ` set (quality_distribution (report_loop mg ns s))"
proof (induction ns arbitrary: s)
  case Nil
  then show ?case by simp
next
  case (Cons f ns)
  from Cons.prems have "quality_label 0 \<in> fst ` set (quality_distribution (report_step mg f s))
      \<or> list_ex (low_file mg) ns"
    using report_step_low [of s mg f] by auto
  from Cons.IH [OF this] show ?case by simp
qed

text \<open>
  A file of bit rate 256 is counted in the band \<open>Alta (256+ kbps)\<close>, and a file whose
  tags cannot be read is not counted at all.
\<close>

lemma band_of_256:
  assumes "lower (node_suffix f) \<in> set audio_extensions"
      and "analyze_audio_quality mg f = Analysis dur 256"
  shows "report_step mg f s =
           s\<lparr> files_analyzed := files_analyzed s + 1,
              total_duration := total_duration s + dur,
              quality_distribution := count_up (quality_distribution s) ''Alta (256+ kbps)'' \<rparr>"
  using assms by (simp add: report_step_def quality_label_def)

lemma failed_inspection_not_counted:
  assumes "analyze_audio_quality mg f = AnalysisError"
  shows "report_step mg f s = s"
  using assms by (simp add: report_step_def)

text \<open>
  C9 (the code departs from the claim). The two facts above hold, but the average is not
  computed when a file falls in the lowest band: the label \<open>Baja (<128 kbps)\<close> has no
  \<open>+\<close>, \<open>int('<128 kbps)')\<close> raises \<open>ValueError\<close>, and nothing catches it.
  Whenever the tree holds an audio file with a bit rate above 0 and below 128,
  \<open>get_quality_report\<close> raises instead of returning a report with the weighted average.
\<close>

theorem quality_report_raises_below_128:
  assumes "list_ex (low_file mg) (rglob_all fs base)"
  shows "get_quality_report mg fs base = Inl ValueError"
proof -
  let ?s = "report_loop mg (rglob_all fs base)
      \<lparr> files_analyzed = 0, total_duration = 0, quality_distribution = [] \<rparr>"
  have "fst ` set (quality_distribution ?s) \<subseteq> range quality_label"
    by (rule report_loop_keys) simp
  moreover have "quality_label 0 \<in> fst ` set (quality_distribution ?s)"
    by (rule report_loop_low) (use assms in simp)
  ultimately have "label_sum (quality_distribution ?s) = Inl ValueError"
    by (rule label_sum_raises)
  then show ?thesis by (simp add: get_quality_report_def)
qed

theorem quality_report_raises_below_128_witness:
  "get_quality_report (\<lambda>n. TagInfo (Some 10) (Some 64))
     [dir_node [''d''], audio_file [''d'', ''x.mp3''] ''.mp3''] [''d''] = Inl ValueError"
proof -
  have "list_ex (low_file (\<lambda>n. TagInfo (Some 10) (Some 64)))
          (rglob_all [dir_node [''d''], audio_file [''d'', ''x.mp3''] ''.mp3''] [''d''])"
    by (simp add: low_file_def rglob_all_def is_dir_def dir_node_def audio_file_def below_def
        lower_def lower_char_def audio_extensions_def analyze_audio_quality_def)
  then show ?thesis by (rule quality_report_raises_below_128)
qed

subsection \<open>Settings\<close>

lemma map_of_dict_update:
  "distinct (map fst other) \<Longrightarrow> map_of (dict_update d other) = map_of d ++ map_of other"
proof (induction other arbitrary: d)
  case Nil
  then show ?case by (simp add: dict_update_def)
next
  case (Cons kv other)
  obtain k v where kv: "kv = (k, v)" by (cases kv)
  from Cons.prems kv have k: "k \<notin> fst ` set other" and dist: "distinct (map fst other)" by auto
  have "map_of (dict_update d (kv # other)) = map_of (dict_update (AList.update k v d) other)"
    by (simp add: dict_update_def kv)
  also have "\<dots> = (map_of d)(k \<mapsto> v) ++ map_of other"
    by (simp only: Cons.IH [OF dist] update_conv')
  also have "\<dots> = map_of d ++ map_of (kv # other)"
  proof -
    from k have "map_of other k = None" by (simp add: map_of_eq_None_iff)
    then show ?thesis by (auto simp: kv map_add_def fun_eq_iff split: option.splits)
  qed
  finally show ?case .
qed

text \<open>
  C7. Take a manager whose dictionary has distinct keys (as every Python dictionary has),
  set a key, and save with success. A new manager over the same path then holds the
  new value under that key, the built-in default under every default key that the
  saved document lacks, and every item of the saved document, the unknown keys included.
\<close>

theorem settings_round_trip:
  assumes dist: "distinct (map fst (settings m))"
      and saved: "save_settings write_error (set_setting m key val) files = (Inr True, files')"
  shows "\<exists>m'. new_SettingsManager home files' (settings_file m) = Inr m'
           \<and> get_setting m' key dflt = val
           \<and> (\<forall>k. k \<notin> fst ` set (settings (set_setting m key val))
                 \<longrightarrow> map_of (settings m') k = map_of (default_settings home) k)
           \<and> (\<forall>k v. map_of (settings (set_setting m key val)) k = Some v
                 \<longrightarrow> map_of (settings m') k = Some v)"
proof -
  let ?doc = "settings (set_setting m key val)"
  have doc: "?doc = AList.update key val (settings m)" by (simp add: set_setting_def)
  have ddoc: "distinct (map fst ?doc)" using dist by (simp add: doc distinct_update)
  have ne: "?doc \<noteq> []" unfolding doc by (cases "settings m") auto
  have sf: "settings_file (set_setting m key val) = settings_file m" by (simp add: set_setting_def)
  from saved have files': "files' = files(settings_file m := Inr ?doc)"
    unfolding save_settings_def save_json_file_def sf
    by (auto split: option.splits if_splits)
  let ?m' = "\<lparr> settings_file = settings_file m,
               settings = dict_update (default_settings home) ?doc \<rparr>"
  have new: "new_SettingsManager home files' (settings_file m) = Inr ?m'"
    using ne by (simp add: new_SettingsManager_def load_settings_def load_json_file_def files')
  have look: "map_of (settings ?m') = map_of (default_settings home) ++ map_of ?doc"
    using map_of_dict_update [OF ddoc] by simp
  have key: "map_of ?doc key = Some val" by (simp add: doc update_conv')
  have "get_setting ?m' key dflt = val"
    unfolding get_setting_def look using key by simp
  moreover have "\<forall>k. k \<notin> fst ` set ?doc \<longrightarrow> map_of (settings ?m') k = map_of (default_settings home) k"
    unfolding look by (auto simp: map_add_def split: option.splits simp flip: map_of_eq_None_iff)
  moreover have "\<forall>k v. map_of ?doc k = Some v \<longrightarrow> map_of (settings ?m') k = Some v"
    unfolding look by (auto simp: map_add_def)
  ultimately show ?thesis using new by blast
qed

theorem settings_round_trip_witness:
  "\<exists>m'. new_SettingsManager ''/home/u/Downloads/YouTube''
           (snd (save_settings (\<lambda>p. None)
                   (set_setting \<lparr> settings_file = ''settings.json'',
                                  settings = default_settings ''/home/u/Downloads/YouTube'' \<rparr>
                      ''default_format'' (JStr ''flac''))
                   (\<lambda>p. Inl FileNotFoundError)))
           ''settings.json'' = Inr m'
      \<and> get_setting m' ''default_format'' JNull = JStr ''flac''"
proof -
  let ?m = "\<lparr> settings_file = ''settings.json'',
              settings = default_settings ''/home/u/Downloads/YouTube'' \<rparr>"
  let ?save = "save_settings (\<lambda>p. None) (set_setting ?m ''default_format'' (JStr ''flac''))
                 (\<lambda>p. Inl FileNotFoundError)"
  have d: "distinct (map fst (settings ?m))"
    by (simp add: default_settings_def)
  have s: "?save = (Inr True, snd ?save)"
    by (simp add: save_settings_def save_json_file_def)
  from settings_round_trip [OF d s, of "''/home/u/Downloads/YouTube''" JNull]
  show ?thesis by auto
qed

subsection \<open>Scanning the sidecar files\<close>

lemma missing_folder_no_ids: "sidecars w folder = None \<Longrightarrow> get_downloaded_ids w folder = Inr []"
  by (simp add: get_downloaded_ids_def)

lemma scan_sidecars_aborts:
  "list_ex bad_sidecar files \<Longrightarrow> \<exists>e. scan_sidecars files ids = Inl e"
proof (induction files arbitrary: ids)
  case Nil
  then show ?case by simp
next
  case (Cons f files)
  obtain name loaded where f: "f = (name, loaded)" by (cases f)
  show ?case
  proof (cases "bad_sidecar f")
    case True
    then show ?thesis
      by (auto simp: f bad_sidecar_def split: sum.splits json.splits)
  next
    case False
    with Cons.prems have "list_ex bad_sidecar files" by simp
    from Cons.IH [OF this] show ?thesis
      by (auto simp: f split: sum.splits json.splits option.splits)
  qed
qed

text \<open>
  C3 (the code departs from the claim). A folder that does not exist gives the empty
  set (lemma \<open>missing_folder_no_ids\<close>), and \<open>JSONDecodeError\<close> is skipped. But a sidecar
  whose bytes are not UTF-8 (\<open>UnicodeDecodeError\<close>), that cannot be read
  (\<open>PermissionError\<close>), or that holds JSON other than an object (\<open>data.get\<close> raises
  \<open>AttributeError\<close>) is not skipped: the exception leaves \<open>_get_downloaded_ids\<close>, and
  the scan gives no set at all, whatever the other sidecars hold.
\<close>

theorem corrupt_sidecar_aborts_scan:
  assumes "sidecars w folder = Some files" and "list_ex bad_sidecar files"
  shows "\<exists>e. get_downloaded_ids w folder = Inl e"
proof -
  from assms(2) obtain e where "scan_sidecars files [] = Inl e"
    using scan_sidecars_aborts by blast
  with assms(1) have "get_downloaded_ids w folder = Inl e"
    by (simp add: get_downloaded_ids_def)
  then show ?thesis ..
qed

theorem corrupt_sidecar_aborts_scan_witness:
  "get_downloaded_ids
     \<lparr> extract_info = (\<lambda>u. Inr None), ydl_init = (\<lambda>v. None), ydl_download = (\<lambda>v u. None),
       sanitize_filename = (\<lambda>t. t), path_join = (\<lambda>a b. a @ ''/'' @ b),
       sidecars = (\<lambda>folder. Some [(''a.info.json'', Inr (JObj [(''id'', JStr ''abc'')])),
                                   (''b.info.json'', Inr (JArr []))]),
       cancel_in_flight = (\<lambda>i. False), cancel_between = (\<lambda>i. False) \<rparr>
     ''/music/Mix'' = Inl AttributeError"
proof -
  let ?files = "[(''a.info.json'', Inr (JObj [(''id'', JStr ''abc'')])),
                 (''b.info.json'', Inr (JArr []))]"
  let ?w = "\<lparr> extract_info = (\<lambda>u. Inr None), ydl_init = (\<lambda>v. None),
              ydl_download = (\<lambda>v u. None),
              sanitize_filename = (\<lambda>t. t), path_join = (\<lambda>a b. a @ ''/'' @ b),
              sidecars = (\<lambda>folder. Some ?files),
              cancel_in_flight = (\<lambda>i. False), cancel_between = (\<lambda>i. False) \<rparr>"
  have "sidecars ?w ''/music/Mix'' = Some ?files" by simp
  moreover have "list_ex bad_sidecar ?files" by (simp add: bad_sidecar_def)
  ultimately have "\<exists>e. get_downloaded_ids ?w ''/music/Mix'' = Inl e"
    by (rule corrupt_sidecar_aborts_scan)
  then show ?thesis by (simp add: get_downloaded_ids_def)
qed

lemma undecodable_sidecar_aborts_scan:
  "scan_sidecars [(''a.info.json'', Inr (JObj [(''id'', JStr ''abc'')])),
                  (''b.info.json'', Inl UnicodeDecodeError)] [] = Inl UnicodeDecodeError"
  by simp

subsection \<open>Building the options\<close>

lemma is_dictD:
  assumes "is_dict h v"
  obtains p pkvs where "v = PRef p" "p < length h" "h ! p = PDict pkvs"
  using assms unfolding is_dict_def deref_def
  by (cases v) (auto split: if_splits pyobj.splits)

lemma dict_getitemD:
  assumes "dict_getitem h (PRef a) k = Inr v"
  obtains kvs where "a < length h" "h ! a = PDict kvs" "map_of kvs k = Some v"
  using assms unfolding dict_getitem_def deref_def
  by (auto split: if_splits pyobj.splits option.splits)

lemma list_getitemD:
  assumes "list_getitem h xs 0 = Inr v"
  obtains l vs where "xs = PRef l" "l < length h" "h ! l = PList (v # vs)"
  using assms unfolding list_getitem_def deref_def py_index_def
  by (cases xs) (auto split: if_splits pyobj.splits list.splits simp: neq_Nil_conv)

lemma postprocessors_okD:
  assumes "postprocessors_ok h a"
  obtains kvs l p ps pkvs where
    "a < length h" "h ! a = PDict kvs" "map_of kvs ''postprocessors'' = Some (PRef l)"
    "l < length h" "h ! l = PList (PRef p # ps)" "p < length h" "h ! p = PDict pkvs"
proof -
  from assms obtain pp first where
    pp: "dict_getitem h (PRef a) ''postprocessors'' = Inr pp"
    and first: "list_getitem h pp 0 = Inr first" and d: "is_dict h first"
    unfolding postprocessors_ok_def by (auto split: sum.splits)
  from pp obtain kvs where 1: "a < length h" "h ! a = PDict kvs"
    "map_of kvs ''postprocessors'' = Some pp" by (rule dict_getitemD)
  from first obtain l vs where 2: "pp = PRef l" "l < length h" "h ! l = PList (first # vs)"
    by (rule list_getitemD)
  from d obtain p pkvs where 3: "first = PRef p" "p < length h" "h ! p = PDict pkvs"
    by (rule is_dictD)
  from 1 2 3 that show thesis by simp
qed

lemma postprocessors_okI:
  assumes "a < length h" "h ! a = PDict kvs" "map_of kvs ''postprocessors'' = Some (PRef l)"
    "l < length h" "h ! l = PList (PRef p # ps)" "p < length h" "h ! p = PDict pkvs"
  shows "postprocessors_ok h a"
  using assms unfolding postprocessors_ok_def deref_def
    dict_getitem_def list_getitem_def py_index_def is_dict_def by simp

lemma config_ok_initial: "config_ok (initial_store dd)"
  by (simp add: config_ok_def postprocessors_ok_def deref_def DEFAULT_DOWNLOAD_CONFIG_def
      initial_store_def dict_getitem_def list_getitem_def py_index_def is_dict_def)

lemma postprocessors_ok_append:
  assumes "postprocessors_ok h b"
  shows "postprocessors_ok (h @ xs) b"
proof -
  from assms obtain kvs l p ps pkvs where
    "b < length h" "h ! b = PDict kvs" "map_of kvs ''postprocessors'' = Some (PRef l)"
    "l < length h" "h ! l = PList (PRef p # ps)" "p < length h" "h ! p = PDict pkvs"
    by (rule postprocessors_okD)
  then show ?thesis
    by (intro postprocessors_okI [where kvs = kvs and l = l and p = p and ps = ps and pkvs = pkvs])
       (simp_all add: nth_append)
qed

lemma dict_setitem_dict:
  assumes "a < length h" "h ! a = PDict akvs"
  shows "dict_setitem h (PRef a) k v = Inr (h[a := PDict (AList.update k v akvs)])"
  using assms by (simp add: dict_setitem_def deref_def)

lemma postprocessors_ok_update:
  assumes ok: "postprocessors_ok h b"
      and a: "a < length h" "h ! a = PDict akvs"
      and k: "k \<noteq> ''postprocessors'' \<or> a \<noteq> b"
  shows "postprocessors_ok (h[a := PDict (AList.update k v akvs)]) b"
proof -
  let ?h = "h[a := PDict (AList.update k v akvs)]"
  from ok obtain kvs l p ps pkvs where c:
    "b < length h" "h ! b = PDict kvs" "map_of kvs ''postprocessors'' = Some (PRef l)"
    "l < length h" "h ! l = PList (PRef p # ps)" "p < length h" "h ! p = PDict pkvs"
    by (rule postprocessors_okD)
  have al: "a \<noteq> l" using a c by auto
  have 1: "\<exists>kvs'. ?h ! b = PDict kvs' \<and> map_of kvs' ''postprocessors'' = Some (PRef l)"
    using a c k by (cases "a = b") (auto simp: update_conv')
  have 2: "?h ! l = PList (PRef p # ps)" using al c by simp
  have 3: "\<exists>pkvs'. ?h ! p = PDict pkvs'" using a c by (cases "a = p") auto
  from 1 2 3 c show ?thesis
    by (auto intro!: postprocessors_okI [where l = l and p = p and ps = ps])
qed

lemma setitem_step:
  assumes "postprocessors_ok h a" "postprocessors_ok h b" "k \<noteq> ''postprocessors''"
  shows "\<exists>h'. dict_setitem h (PRef a) k v = Inr h'
            \<and> postprocessors_ok h' a \<and> postprocessors_ok h' b"
proof -
  from assms(1) obtain akvs where a: "a < length h" "h ! a = PDict akvs"
    by (rule postprocessors_okD)
  show ?thesis
    using dict_setitem_dict [OF a] postprocessors_ok_update [OF assms(1) a]
      postprocessors_ok_update [OF assms(2) a] assms(3) by simp
qed

lemma first_postprocessor_step:
  assumes "postprocessors_ok h a" "postprocessors_ok h b" "k \<noteq> ''postprocessors''"
  shows "\<exists>h'. set_first_postprocessor k v (PRef a) h = Inr h'
            \<and> postprocessors_ok h' a \<and> postprocessors_ok h' b"
proof -
  from assms(1) obtain kvs l p ps pkvs where c:
    "a < length h" "h ! a = PDict kvs" "map_of kvs ''postprocessors'' = Some (PRef l)"
    "l < length h" "h ! l = PList (PRef p # ps)" "p < length h" "h ! p = PDict pkvs"
    by (rule postprocessors_okD)
  have "set_first_postprocessor k v (PRef a) h = dict_setitem h (PRef p) k (PStr v)"
    using c by (simp add: set_first_postprocessor_def dict_getitem_def list_getitem_def
        deref_def py_index_def)
  also have "\<dots> = Inr (h[p := PDict (AList.update k (PStr v) pkvs)])"
    using c by (simp add: dict_setitem_dict)
  finally show ?thesis
    using postprocessors_ok_update [OF assms(1) c(6,7)]
      postprocessors_ok_update [OF assms(2) c(6,7)] assms(3) by simp
qed

lemma template_step:
  assumes "postprocessors_ok h a" "postprocessors_ok h b"
  shows "\<exists>h'. set_output_template output_path playlist_mode (PRef a) h = Inr h'
            \<and> postprocessors_ok h' a \<and> postprocessors_ok h' b"
  using assms setitem_step [OF assms, of "''outtmpl''"]
  by (auto simp: set_output_template_def split: option.splits)

lemma hooks_step:
  assumes "postprocessors_ok h a" "postprocessors_ok h b"
  shows "\<exists>h'. set_progress_hooks hook (PRef a) h = Inr h'
            \<and> postprocessors_ok h' a \<and> postprocessors_ok h' b"
proof (cases hook)
  case False
  with assms show ?thesis by (simp add: set_progress_hooks_def)
next
  case True
  have "postprocessors_ok (h @ [PList [PHook]]) a" "postprocessors_ok (h @ [PList [PHook]]) b"
    using assms by (simp_all add: postprocessors_ok_append)
  from setitem_step [OF this, of "''progress_hooks''"] True show ?thesis
    by (simp add: set_progress_hooks_def alloc_def)
qed

lemma video_step:
  assumes "postprocessors_ok h a" "postprocessors_ok h b" "a \<noteq> b"
  shows "\<exists>h'. (let (thumbnail, h2) = alloc h (PDict [(''key'', PStr ''EmbedThumbnail'')]);
                   (metadata, h3) = alloc h2 (PDict [(''key'', PStr ''FFmpegMetadata'')]);
                   (postprocessors, h4) = alloc h3 (PList [PRef thumbnail, PRef metadata])
               in dict_setitem h4 (PRef a) ''postprocessors'' (PRef postprocessors)) = Inr h'
            \<and> postprocessors_ok h' a \<and> postprocessors_ok h' b"
proof -
  let ?n = "length h"
  let ?h4 = "h @ [PDict [(''key'', PStr ''EmbedThumbnail'')],
                  PDict [(''key'', PStr ''FFmpegMetadata'')],
                  PList [PRef ?n, PRef (Suc ?n)]]"
  from assms(1) obtain akvs where a: "a < length h" "h ! a = PDict akvs"
    by (rule postprocessors_okD)
  have a4: "a < length ?h4" "?h4 ! a = PDict akvs" using a by (simp_all add: nth_append)
  let ?h5 = "?h4[a := PDict (AList.update ''postprocessors'' (PRef (Suc (Suc ?n))) akvs)]"
  have b: "postprocessors_ok ?h5 b"
    using postprocessors_ok_update [OF postprocessors_ok_append [OF assms(2)] a4] assms(3) by simp
  have "postprocessors_ok ?h5 a"
    using a
    by (intro postprocessors_okI [where l = "Suc (Suc ?n)" and p = ?n
          and kvs = "AList.update ''postprocessors'' (PRef (Suc (Suc ?n))) akvs"])
       (simp_all add: nth_append update_conv' nth_list_update)
  with b dict_setitem_dict [OF a4] show ?thesis
    by (simp add: alloc_def)
qed

lemma format_step:
  assumes "postprocessors_ok h a" "postprocessors_ok h b" "a \<noteq> b"
  shows "\<exists>h'. set_output_format output_format quality (PRef a) h = Inr h'
            \<and> postprocessors_ok h' a \<and> postprocessors_ok h' b"
proof (cases "output_format \<in> set AUDIO_FORMATS")
  case True
  from setitem_step [OF assms(1,2), of "''format''" "PStr ''bestaudio/best''"]
  obtain h1 where 1: "dict_setitem h (PRef a) ''format'' (PStr ''bestaudio/best'') = Inr h1"
    "postprocessors_ok h1 a" "postprocessors_ok h1 b" by auto
  from first_postprocessor_step [OF 1(2,3), of "''preferredcodec''" output_format]
  obtain h2 where 2: "set_first_postprocessor ''preferredcodec'' output_format (PRef a) h1 = Inr h2"
    "postprocessors_ok h2 a" "postprocessors_ok h2 b" by auto
  from first_postprocessor_step [OF 2(2,3), of "''preferredquality''" quality]
  obtain h3 where 3: "set_first_postprocessor ''preferredquality'' quality (PRef a) h2 = Inr h3"
    "postprocessors_ok h3 a" "postprocessors_ok h3 b" by auto
  from True 1 2 3 show ?thesis by (simp add: set_output_format_def)
next
  case False
  show ?thesis
  proof (cases "map_of VIDEO_FORMATS output_format")
    case None
    with False assms show ?thesis by (simp add: set_output_format_def)
  next
    case (Some selector)
    from setitem_step [OF assms(1,2), of "''format''" "PStr selector"]
    obtain h1 where 1: "dict_setitem h (PRef a) ''format'' (PStr selector) = Inr h1"
      "postprocessors_ok h1 a" "postprocessors_ok h1 b" by auto
    from video_step [OF 1(2,3) assms(3)] False Some 1(1) show ?thesis
      by (simp add: set_output_format_def)
  qed
qed

lemma build_succeeds:
  assumes "config_ok h"
  shows "\<exists>options h'.
           build_download_options hook output_format quality output_path playlist_mode h
             = Inr (options, h') \<and> config_ok h'"
proof -
  let ?d = DEFAULT_DOWNLOAD_CONFIG
  from assms have ok: "postprocessors_ok h ?d" by (simp add: config_ok_def)
  then obtain kvs l p ps pkvs where c:
    "?d < length h" "h ! ?d = PDict kvs" "map_of kvs ''postprocessors'' = Some (PRef l)"
    "l < length h" "h ! l = PList (PRef p # ps)" "p < length h" "h ! p = PDict pkvs"
    by (rule postprocessors_okD)
  let ?o = "length h" and ?h1 = "h @ [PDict kvs]"
  have copy: "dict_copy h ?d = Inr (?o, ?h1)"
    using c by (simp add: dict_copy_def deref_def alloc_def)
  have d1: "postprocessors_ok ?h1 ?d" using ok by (rule postprocessors_ok_append)
  have o1: "postprocessors_ok ?h1 ?o"
    using c by (intro postprocessors_okI [where kvs = kvs and l = l and p = p and ps = ps])
      (simp_all add: nth_append)
  have ne: "?o \<noteq> ?d" using c by simp
  from template_step [OF o1 d1] obtain h2 where
    2: "set_output_template output_path playlist_mode (PRef ?o) ?h1 = Inr h2"
       "postprocessors_ok h2 ?o" "postprocessors_ok h2 ?d" by blast
  from format_step [OF 2(2,3) ne] obtain h3 where
    3: "set_output_format output_format quality (PRef ?o) h2 = Inr h3"
       "postprocessors_ok h3 ?o" "postprocessors_ok h3 ?d" by blast
  from hooks_step [OF 3(2,3)] obtain h4 where
    4: "set_progress_hooks hook (PRef ?o) h3 = Inr h4"
       "postprocessors_ok h4 ?o" "postprocessors_ok h4 ?d" by blast
  from copy 2 3 4 show ?thesis
    by (simp add: build_download_options_def config_ok_def)
qed

lemma initial_view:
  "options_view (initial_store dd) DEFAULT_DOWNLOAD_CONFIG = defaults_with dd ''mp3'' ''192''"
  by (simp add: options_view_def initial_store_def DEFAULT_DOWNLOAD_CONFIG_def deref_def
      defaults_with_def numeral_3_eq_3)

lemmas build_unfold =
  build_download_options_def dict_copy_def deref_def DEFAULT_DOWNLOAD_CONFIG_def
  initial_store_def alloc_def set_output_template_def dict_setitem_def dict_getitem_def
  list_getitem_def py_index_def set_output_format_def set_first_postprocessor_def
  set_progress_hooks_def options_view_def numeral_3_eq_3 nth_append

text \<open>
  C4 (the code departs from the claim). \<open>DEFAULT_DOWNLOAD_CONFIG.copy()\<close> is a shallow
  copy: the new dictionary holds the same list of postprocessors, and
  \<open>options['postprocessors'][0]['preferredcodec'] = output_format\<close> writes into the
  dictionary that the defaults hold. After options have been built for an audio format,
  a reader of \<open>DEFAULT_DOWNLOAD_CONFIG\<close> sees that format and quality in place of
  \<open>mp3\<close> and \<open>192\<close>.
\<close>

theorem audio_options_overwrite_defaults:
  assumes "output_format \<in> set AUDIO_FORMATS"
  shows "\<exists>options h.
           build_download_options hook output_format quality output_path playlist_mode
             (initial_store dd) = Inr (options, h)
         \<and> options_view h DEFAULT_DOWNLOAD_CONFIG = defaults_with dd output_format quality"
proof (cases output_path)
  case None
  with assms show ?thesis
    by (cases hook) (simp_all add: build_unfold defaults_with_def)
next
  case (Some path)
  with assms show ?thesis
    by (cases playlist_mode; cases hook) (simp_all add: build_unfold defaults_with_def)
qed

theorem audio_options_overwrite_defaults_witness:
  "\<exists>options h.
     build_download_options False ''flac'' ''best'' (Some ''/music'') False
       (initial_store ''/app/descargas'') = Inr (options, h)
   \<and> options_view h DEFAULT_DOWNLOAD_CONFIG = defaults_with ''/app/descargas'' ''flac'' ''best''
   \<and> options_view h DEFAULT_DOWNLOAD_CONFIG
        \<noteq> options_view (initial_store ''/app/descargas'') DEFAULT_DOWNLOAD_CONFIG"
proof -
  have "''flac'' \<in> set AUDIO_FORMATS" by (simp add: AUDIO_FORMATS_def)
  from audio_options_overwrite_defaults [OF this, of False "''best''" "Some ''/music''" False
      "''/app/descargas''"]
  show ?thesis by (auto simp: initial_view defaults_with_def)
qed

text \<open>
  Two consequences. Options already handed to a download are changed by the next call
  for another audio format; and a call with a format that is in neither table copies
  whatever codec the call before it left in the defaults.
\<close>

lemma options_mutated_by_next_call:
  "\<exists>first h1 second h2.
     build_download_options False ''mp3'' ''192'' (Some ''/music'') False (initial_store dd)
       = Inr (first, h1)
   \<and> build_download_options False ''flac'' ''best'' (Some ''/music'') False h1
       = Inr (second, h2)
   \<and> options_view h1 first \<noteq> options_view h2 first"
  by (simp add: build_unfold AUDIO_FORMATS_def nth_list_update)

lemma unknown_format_sees_last_codec:
  "\<exists>first h1 second h2.
     build_download_options False ''flac'' ''best'' None False (initial_store dd)
       = Inr (first, h1)
   \<and> build_download_options False ''opus'' ''128'' None False h1 = Inr (second, h2)
   \<and> options_view h2 second = defaults_with dd ''flac'' ''best''"
  by (simp add: build_unfold AUDIO_FORMATS_def VIDEO_FORMATS_def nth_list_update
      defaults_with_def)

lemma video_not_audio: "map_of VIDEO_FORMATS f = Some sel \<Longrightarrow> f \<notin> set AUDIO_FORMATS"
  by (auto simp: VIDEO_FORMATS_def AUDIO_FORMATS_def split: if_splits)

lemma video_options_on_defaults:
  assumes "map_of VIDEO_FORMATS output_format = Some selector"
  shows "\<exists>options h.
           build_download_options False output_format quality (Some ''/out'') False
             (initial_store dd) = Inr (options, h)
         \<and> options_view h options = video_options ''/out'' selector"
proof -
  from assms have "output_format \<in> {''mp4'', ''webm'', ''mkv'', ''avi''}"
    by (auto simp: VIDEO_FORMATS_def split: if_splits)
  with assms show ?thesis
    by (auto simp: build_unfold AUDIO_FORMATS_def VIDEO_FORMATS_def video_options_def)
qed

text \<open>
  C5 (the code departs from the claim). For a video format the options hold the two
  embedding postprocessors and no transcoding one, and the stream selector is the entry
  of \<open>VIDEO_FORMATS\<close>, which filters by the container extension. The quality is not
  read at all on this path (\<open>VIDEO_QUALITIES\<close> is imported and never used): whatever
  the quality, the same options are built, on every store, and the selector has no
  ceiling on the height.
\<close>

theorem video_quality_ignored:
  assumes "map_of VIDEO_FORMATS output_format = Some selector"
  shows "build_download_options hook output_format quality output_path playlist_mode h
           = build_download_options hook output_format quality' output_path playlist_mode h
       \<and> (\<exists>options h'.
             build_download_options False output_format quality (Some ''/out'') False
               (initial_store dd) = Inr (options, h')
           \<and> options_view h' options = video_options ''/out'' selector)"
proof -
  have eq: "set_output_format output_format quality = set_output_format output_format quality'"
    using video_not_audio [OF assms] by (intro ext) (simp add: set_output_format_def)
  have "build_download_options hook output_format quality output_path playlist_mode h
           = build_download_options hook output_format quality' output_path playlist_mode h"
    unfolding build_download_options_def eq ..
  with video_options_on_defaults [OF assms] show ?thesis by blast
qed

theorem video_quality_ignored_witness:
  "build_download_options False ''mp4'' ''720p'' (Some ''/out'') False (initial_store ''/app'')
     = build_download_options False ''mp4'' ''144p'' (Some ''/out'') False (initial_store ''/app'')
   \<and> (\<exists>options h'.
         build_download_options False ''mp4'' ''720p'' (Some ''/out'') False
           (initial_store ''/app'') = Inr (options, h')
       \<and> options_view h' options = video_options ''/out'' ''best[ext=mp4]'')"
proof -
  have "map_of VIDEO_FORMATS ''mp4'' = Some ''best[ext=mp4]''" by (simp add: VIDEO_FORMATS_def)
  from video_quality_ignored [OF this] show ?thesis by blast
qed

subsection \<open>Downloading one video\<close>

text \<open>
  C6. \<open>download_single_video\<close> always returns a Boolean: no exception leaves it. With
  the module's configuration in its shape (the dictionary
  \<open>DEFAULT_DOWNLOAD_CONFIG['postprocessors'][0]\<close> is there, as config.py writes it and
  as every call of the builder leaves it), the options are built, and the result is
  \<open>True\<close> exactly when creating the engine and its \<open>download\<close> on the URL complete
  without raising; when either raises, the result is \<open>False\<close>.
\<close>

theorem download_single_video_never_raises:
  "(\<exists>b. fst (download_single_video w url output_format quality output_path d) = Inr b)
   \<and> (config_ok (config_store d) \<longrightarrow>
        (\<exists>options h.
           build_download_options (progress_hook d \<noteq> None) output_format quality
             (Some (path_or output_path (base_path d))) False (config_store d) = Inr (options, h)
         \<and> fst (download_single_video w url output_format quality output_path d)
             = Inr (ydl_init w (options_view h options) = None
                    \<and> ydl_download w (options_view h options) url = None)))"
proof (intro conjI impI)
  show "\<exists>b. fst (download_single_video w url output_format quality output_path d) = Inr b"
    by (cases "fst (single_video_body w url output_format quality output_path d)")
       (auto simp: download_single_video_def catch_all_def)
next
  assume "config_ok (config_store d)"
  from build_succeeds [OF this] obtain options h where
    b: "build_download_options (progress_hook d \<noteq> None) output_format quality
             (Some (path_or output_path (base_path d))) False (config_store d) = Inr (options, h)"
    by blast
  have "fst (download_single_video w url output_format quality output_path d)
             = Inr (ydl_init w (options_view h options) = None
                    \<and> ydl_download w (options_view h options) url = None)"
    using b by (simp add: download_single_video_def catch_all_def single_video_body_def Let_def
        split: option.splits del: not_None_eq)
  with b show "\<exists>options h.
           build_download_options (progress_hook d \<noteq> None) output_format quality
             (Some (path_or output_path (base_path d))) False (config_store d) = Inr (options, h)
         \<and> fst (download_single_video w url output_format quality output_path d)
             = Inr (ydl_init w (options_view h options) = None
                    \<and> ydl_download w (options_view h options) url = None)" by blast
qed

theorem download_single_video_never_raises_witness:
  "fst (download_single_video
          (test_world (\<lambda>u. if u = ''https://youtu.be/gone'' then Some DownloadError else None)
             (\<lambda>f. None) (\<lambda>i. False))
          ''https://youtu.be/here'' ''mp3'' ''192'' None
          (new_downloader ''/music'' ''/app/descargas'')) = Inr True
   \<and> fst (download_single_video
          (test_world (\<lambda>u. if u = ''https://youtu.be/gone'' then Some DownloadError else None)
             (\<lambda>f. None) (\<lambda>i. False))
          ''https://youtu.be/gone'' ''mp3'' ''192'' None
          (new_downloader ''/music'' ''/app/descargas'')) = Inr False"
proof -
  let ?w = "test_world (\<lambda>u. if u = ''https://youtu.be/gone'' then Some DownloadError else None)
             (\<lambda>f. None) (\<lambda>i. False)"
  let ?d = "new_downloader ''/music'' ''/app/descargas''"
  have ok: "config_ok (config_store ?d)" by (simp add: new_downloader_def config_ok_initial)
  from download_single_video_never_raises [of ?w "''https://youtu.be/here''" "''mp3''" "''192''" None ?d]
    download_single_video_never_raises [of ?w "''https://youtu.be/gone''" "''mp3''" "''192''" None ?d]
    ok
  show ?thesis by (auto simp: test_world_def)
qed

lemma download_playlist_never_raises:
  "\<exists>b. fst (download_playlist w url output_format quality output_path skip_existing d) = Inr b"
  by (cases "fst (playlist_body w url output_format quality output_path skip_existing d)")
     (auto simp: download_playlist_def catch_all_def)

subsection \<open>Downloading a playlist\<close>

lemma urls_none_when_all_present:
  assumes "list_all (\<lambda>e. case e of None \<Rightarrow> True | Some x \<Rightarrow> id_in (entry_id x) ids) entries"
  shows "urls_to_download True ids entries = []"
  using assms by (induction entries) (auto split: option.splits)

lemma playlist_early_success:
  assumes info: "get_video_info w url = Some info" "info_truthy info"
      and scan: "(if skip_existing
                  then get_downloaded_ids w (playlist_folder w info output_path d)
                  else Inr []) = Inr ids"
      and none: "urls_to_download skip_existing ids (playlist_entries info) = []"
  shows "fst (download_playlist w url output_format quality output_path skip_existing d) = Inr True
       \<and> engine_calls (snd (download_playlist w url output_format quality output_path skip_existing d))
           = engine_calls d"
proof -
  let ?d1 = "other_thread (cancel_between w 0) (d\<lparr> is_downloading := True, cancel_download := False \<rparr>)"
  have f: "playlist_folder w info output_path ?d1 = playlist_folder w info output_path d"
    by (simp add: playlist_folder_def other_thread_def cancel_current_download_def)
  have "playlist_body w url output_format quality output_path skip_existing d
      = (Inr True, reset_progress (playlist_entries info) ?d1)"
    using info scan none by (cases skip_existing) (simp_all add: playlist_body_def Let_def f)
  then show ?thesis
    by (simp add: download_playlist_def catch_all_def reset_progress_def other_thread_def
        cancel_current_download_def split: option.splits)
qed

text \<open>
  Where the scan of the folder returns a set of identifiers (or is not made), nothing to
  download is a success: if the list of entries is empty, or if \<open>skip_existing\<close> is set
  and the identifier of every entry that is not \<open>None\<close> is in that set, then
  \<open>download_playlist\<close> returns \<open>True\<close> and the engine's \<open>download\<close> is not called.
\<close>

lemma nothing_to_download_when_scan_returns:
  assumes "get_video_info w url = Some info" and "info_truthy info"
      and "(if skip_existing
            then get_downloaded_ids w (playlist_folder w info output_path d)
            else Inr []) = Inr ids"
      and "playlist_entries info = []
           \<or> (skip_existing
               \<and> list_all (\<lambda>e. case e of None \<Rightarrow> True | Some x \<Rightarrow> id_in (entry_id x) ids)
                    (playlist_entries info))"
  shows "fst (download_playlist w url output_format quality output_path skip_existing d) = Inr True
       \<and> engine_calls (snd (download_playlist w url output_format quality output_path skip_existing d))
           = engine_calls d"
proof -
  from assms(4) have "urls_to_download skip_existing ids (playlist_entries info) = []"
    using urls_none_when_all_present [of ids "playlist_entries info"] by auto
  with assms(1-3) show ?thesis by (rule playlist_early_success)
qed

lemma nothing_to_download_example:
  "fst (download_playlist
          (test_world (\<lambda>u. Some DownloadError)
             (\<lambda>f. Some (map (\<lambda>i. (i @ ''.info.json'', Inr (JObj [(''id'', JStr i)])))
                            [''v1'', ''v2'', ''v3'', ''v4'', ''v5'']))
             (\<lambda>i. False))
          ''https://www.youtube.com/playlist?list=PL1'' ''mp3'' ''192'' None True
          (new_downloader ''/music'' ''/app/descargas'')) = Inr True
   \<and> engine_calls (snd (download_playlist
          (test_world (\<lambda>u. Some DownloadError)
             (\<lambda>f. Some (map (\<lambda>i. (i @ ''.info.json'', Inr (JObj [(''id'', JStr i)])))
                            [''v1'', ''v2'', ''v3'', ''v4'', ''v5'']))
             (\<lambda>i. False))
          ''https://www.youtube.com/playlist?list=PL1'' ''mp3'' ''192'' None True
          (new_downloader ''/music'' ''/app/descargas''))) = []"
proof -
  let ?w = "test_world (\<lambda>u. Some DownloadError)
             (\<lambda>f. Some (map (\<lambda>i. (i @ ''.info.json'', Inr (JObj [(''id'', JStr i)])))
                            [''v1'', ''v2'', ''v3'', ''v4'', ''v5'']))
             (\<lambda>i. False)"
  let ?d = "new_downloader ''/music'' ''/app/descargas''"
  let ?ids = "[JStr ''v5'', JStr ''v4'', JStr ''v3'', JStr ''v2'', JStr ''v1'']"
  have info: "get_video_info ?w ''https://www.youtube.com/playlist?list=PL1'' = Some five_entries"
    "info_truthy five_entries"
    by (simp_all add: get_video_info_def test_world_def info_truthy_def five_entries_def)
  have scan: "(if True then get_downloaded_ids ?w (playlist_folder ?w five_entries None ?d)
               else Inr []) = Inr ?ids"
    by (simp add: get_downloaded_ids_def test_world_def)
  have present: "playlist_entries five_entries = []
       \<or> (True \<and> list_all (\<lambda>e. case e of None \<Rightarrow> True | Some x \<Rightarrow> id_in (entry_id x) ?ids)
                    (playlist_entries five_entries))"
    by (simp add: playlist_entries_def five_entries_def id_in_def)
  from nothing_to_download_when_scan_returns [OF info scan present]
  show ?thesis by (simp add: new_downloader_def)
qed

text \<open>
  C2 (the code departs from the claim). The scan of the folder comes first, and a sidecar
  that it does not skip makes it raise; \<open>except Exception\<close> in \<open>download_playlist\<close>
  turns that into \<open>False\<close>. So with \<open>skip_existing\<close> set and such a sidecar in the
  folder of the playlist, \<open>download_playlist\<close> returns \<open>False\<close> whatever the entries
  are: also when the list of entries is empty, and also when the identifier of every
  entry is in the sidecar files of the folder. The engine's \<open>download\<close> is not called.
  This is the defect of \<open>_get_downloaded_ids\<close> (C3), seen from its caller.
\<close>

theorem corrupt_sidecar_fails_playlist:
  assumes info: "get_video_info w url = Some info" "info_truthy info"
      and folder: "sidecars w (playlist_folder w info output_path d) = Some files"
      and bad: "list_ex bad_sidecar files"
  shows "fst (download_playlist w url output_format quality output_path True d) = Inr False
       \<and> engine_calls (snd (download_playlist w url output_format quality output_path True d))
           = engine_calls d"
proof -
  let ?d1 = "other_thread (cancel_between w 0) (d\<lparr> is_downloading := True, cancel_download := False \<rparr>)"
  from bad obtain e where "scan_sidecars files [] = Inl e"
    using scan_sidecars_aborts by blast
  with folder have scan: "get_downloaded_ids w (playlist_folder w info output_path d) = Inl e"
    by (simp add: get_downloaded_ids_def)
  have f: "playlist_folder w info output_path ?d1 = playlist_folder w info output_path d"
    by (simp add: playlist_folder_def other_thread_def cancel_current_download_def)
  have "playlist_body w url output_format quality output_path True d
      = (Inl e, reset_progress (playlist_entries info) ?d1)"
    using info scan by (simp add: playlist_body_def Let_def f)
  then show ?thesis
    by (simp add: download_playlist_def catch_all_def reset_progress_def other_thread_def
        cancel_current_download_def split: option.splits)
qed

text \<open>
  The five identifiers of the playlist are all in the sidecar files of the folder, and
  one more sidecar holds \<open>[]\<close>: the result is \<open>False\<close>, not success.
\<close>

theorem corrupt_sidecar_fails_playlist_witness:
  "fst (download_playlist
          (test_world (\<lambda>u. None)
             (\<lambda>f. Some (map (\<lambda>i. (i @ ''.info.json'', Inr (JObj [(''id'', JStr i)])))
                            [''v1'', ''v2'', ''v3'', ''v4'', ''v5'']
                         @ [(''zz.info.json'', Inr (JArr []))]))
             (\<lambda>i. False))
          ''https://www.youtube.com/playlist?list=PL1'' ''mp3'' ''192'' None True
          (new_downloader ''/music'' ''/app/descargas'')) = Inr False
   \<and> engine_calls (snd (download_playlist
          (test_world (\<lambda>u. None)
             (\<lambda>f. Some (map (\<lambda>i. (i @ ''.info.json'', Inr (JObj [(''id'', JStr i)])))
                            [''v1'', ''v2'', ''v3'', ''v4'', ''v5'']
                         @ [(''zz.info.json'', Inr (JArr []))]))
             (\<lambda>i. False))
          ''https://www.youtube.com/playlist?list=PL1'' ''mp3'' ''192'' None True
          (new_downloader ''/music'' ''/app/descargas''))) = []"
proof -
  let ?files = "map (\<lambda>i. (i @ ''.info.json'', Inr (JObj [(''id'', JStr i)])))
                  [''v1'', ''v2'', ''v3'', ''v4'', ''v5'']
                @ [(''zz.info.json'', Inr (JArr []))]"
  let ?w = "test_world (\<lambda>u. None) (\<lambda>f. Some ?files) (\<lambda>i. False)"
  let ?d = "new_downloader ''/music'' ''/app/descargas''"
  have info: "get_video_info ?w ''https://www.youtube.com/playlist?list=PL1'' = Some five_entries"
    "info_truthy five_entries"
    by (simp_all add: get_video_info_def test_world_def info_truthy_def five_entries_def)
  have folder: "sidecars ?w (playlist_folder ?w five_entries None ?d) = Some ?files"
    by (simp add: test_world_def)
  have bad: "list_ex bad_sidecar ?files"
    by (simp add: bad_sidecar_def)
  from corrupt_sidecar_fails_playlist [OF info folder bad]
  show ?thesis by (simp add: new_downloader_def)
qed

text \<open>The same with an empty list of entries and a sidecar that is not UTF-8.\<close>

lemma empty_playlist_fails_on_undecodable_sidecar:
  "fst (download_playlist
          \<lparr> extract_info = (\<lambda>u. Inr (Some \<lparr> info_title = Some ''Mix'', info_entries = Some [],
                                              info_other_keys = [] \<rparr>)),
            ydl_init = (\<lambda>v. None), ydl_download = (\<lambda>v u. None),
            sanitize_filename = (\<lambda>t. t), path_join = (\<lambda>a b. a @ ''/'' @ b),
            sidecars = (\<lambda>f. Some [(''old.info.json'', Inl UnicodeDecodeError)]),
            cancel_in_flight = (\<lambda>i. False), cancel_between = (\<lambda>i. False) \<rparr>
          ''https://www.youtube.com/playlist?list=PL1'' ''mp3'' ''192'' None True
          (new_downloader ''/music'' ''/app/descargas'')) = Inr False"
  by (simp add: download_playlist_def catch_all_def playlist_body_def Let_def get_video_info_def
      info_truthy_def playlist_entries_def playlist_folder_def get_downloaded_ids_def
      reset_progress_def other_thread_def new_downloader_def path_or_def)

lemma loop_cancelled: "cancel_download d \<Longrightarrow> download_loop w opts i urls d = (Inr (), d)"
  by (cases urls) simp_all

lemma loop_cancel_after:
  assumes "\<not> cancel_download d" "0 < k" "k \<le> length urls"
      and "\<forall>u \<in> set (take k urls). ydl_download w opts u = None"
      and "\<forall>j. i < j \<and> j < i + k \<longrightarrow> \<not> cancel_in_flight w j \<and> \<not> cancel_between w j"
      and "cancel_in_flight w (i + k) \<or> cancel_between w (i + k)"
  shows "download_loop w opts i urls d
       = (Inr (), d\<lparr> cancel_download := True, engine_calls := engine_calls d @ take k urls \<rparr>)"
  using assms
proof (induction urls arbitrary: i k d)
  case Nil
  then show ?case by simp
next
  case (Cons u urls)
  from Cons.prems(2) obtain k' where k: "k = Suc k'" by (cases k) auto
  from Cons.prems(4) k have u: "ydl_download w opts u = None" by simp
  let ?d1 = "d\<lparr> engine_calls := engine_calls d @ [u] \<rparr>"
  show ?case
  proof (cases k')
    case 0
    with Cons.prems(6) k have "cancel_in_flight w (Suc i) \<or> cancel_between w (Suc i)" by simp
    then have c: "other_thread (cancel_between w (Suc i)) (other_thread (cancel_in_flight w (Suc i)) ?d1)
        = ?d1\<lparr> cancel_download := True \<rparr>"
      by (auto simp: other_thread_def cancel_current_download_def)
    show ?thesis
      using Cons.prems(1) u 0 k by (simp add: c loop_cancelled Let_def)
  next
    case (Suc k'')
    with Cons.prems(5) k have q: "\<not> cancel_in_flight w (Suc i)" "\<not> cancel_between w (Suc i)"
      by auto
    have ih: "download_loop w opts (Suc i) urls ?d1
       = (Inr (), ?d1\<lparr> cancel_download := True, engine_calls := engine_calls ?d1 @ take k' urls \<rparr>)"
    proof (rule Cons.IH)
      show "\<not> cancel_download ?d1" using Cons.prems(1) by simp
      show "0 < k'" using Suc by simp
      show "k' \<le> length urls" using Cons.prems(3) k by simp
      show "\<forall>u \<in> set (take k' urls). ydl_download w opts u = None"
        using Cons.prems(4) k by simp
      show "\<forall>j. Suc i < j \<and> j < Suc i + k' \<longrightarrow> \<not> cancel_in_flight w j \<and> \<not> cancel_between w j"
        using Cons.prems(5) k by simp
      show "cancel_in_flight w (Suc i + k') \<or> cancel_between w (Suc i + k')"
        using Cons.prems(6) k by simp
    qed
    show ?thesis
      using Cons.prems(1) u q k by (simp add: other_thread_def Let_def ih)
  qed
qed


lemma reset_progress_fields:
  "base_path (reset_progress es d) = base_path d"
  "config_store (reset_progress es d) = config_store d"
  "cancel_download (reset_progress es d) = cancel_download d"
  "engine_calls (reset_progress es d) = engine_calls d"
  "(progress_hook (reset_progress es d) = None) = (progress_hook d = None)"
  by (simp_all add: reset_progress_def split: option.splits)

text \<open>
  C1. Let the playlist be resolved to \<open>n \<ge> 1\<close> candidate URLs, let the options be
  built and the engine created, and let \<open>k \<le> n\<close>. If the first \<open>k\<close> calls of the
  engine complete, the other thread does not cancel before, and it cancels after the
  \<open>k\<close>-th call has completed and before the next iteration begins (or while the
  \<open>k\<close>-th call is in flight: the call is not interrupted, the flag is read at the
  next boundary only), then the engine has been called on the first \<open>k\<close> URLs and on
  no other, and \<open>download_playlist\<close> returns \<open>False\<close>.
\<close>

theorem cancel_between_items:
  assumes info: "get_video_info w url = Some info" "info_truthy info"
      and scan: "(if skip_existing
                  then get_downloaded_ids w (playlist_folder w info output_path d)
                  else Inr []) = Inr ids"
      and urls: "urls_to_download skip_existing ids (playlist_entries info) = urls" "urls \<noteq> []"
      and built: "build_download_options (progress_hook d \<noteq> None) output_format quality
                    (Some (path_or output_path (base_path d))) True (config_store d)
                  = Inr (options, h)"
      and init: "ydl_init w (options_view h options) = None"
      and k: "k \<le> length urls"
      and completes: "\<forall>u \<in> set (take k urls). ydl_download w (options_view h options) u = None"
      and quiet: "\<forall>j. j < k \<longrightarrow> \<not> cancel_between w j \<and> \<not> cancel_in_flight w j"
      and cancel: "cancel_between w k \<or> (0 < k \<and> cancel_in_flight w k)"
  shows "fst (download_playlist w url output_format quality output_path skip_existing d) = Inr False
       \<and> engine_calls (snd (download_playlist w url output_format quality output_path skip_existing d))
           = engine_calls d @ take k urls"
proof -
  let ?d1 = "other_thread (cancel_between w 0) (d\<lparr> is_downloading := True, cancel_download := False \<rparr>)"
  let ?d2 = "reset_progress (playlist_entries info) ?d1"
  let ?d3 = "?d2\<lparr> config_store := h \<rparr>"
  let ?v = "options_view h options"
  have f: "playlist_folder w info output_path ?d1 = playlist_folder w info output_path d"
    by (simp add: playlist_folder_def other_thread_def cancel_current_download_def)
  have d1: "base_path ?d1 = base_path d" "config_store ?d1 = config_store d"
    "progress_hook ?d1 = progress_hook d" "engine_calls ?d1 = engine_calls d"
    "cancel_download ?d1 = cancel_between w 0"
    by (simp_all add: other_thread_def cancel_current_download_def)
  have b: "build_download_options (progress_hook ?d2 \<noteq> None) output_format quality
             (Some (path_or output_path (base_path ?d2))) True (config_store ?d2) = Inr (options, h)"
    using built by (simp add: reset_progress_fields d1 del: not_None_eq)
  have body: "playlist_body w url output_format quality output_path skip_existing d
      = (case download_loop w ?v 0 urls ?d3 of
           (Inl e, d4) \<Rightarrow> (Inl e, d4)
         | (Inr u, d4) \<Rightarrow> (Inr (\<not> cancel_download d4), d4))"
    using info scan urls init
    by (cases skip_existing) (simp_all add: playlist_body_def Let_def f b del: not_None_eq)
  have loop: "download_loop w ?v 0 urls ?d3
      = (Inr (), ?d3\<lparr> cancel_download := True, engine_calls := engine_calls ?d3 @ take k urls \<rparr>)"
  proof (cases "k = 0")
    case True
    with cancel have "cancel_download ?d3"
      by (simp add: reset_progress_fields other_thread_def cancel_current_download_def)
    then show ?thesis using True by (simp add: loop_cancelled)
  next
    case False
    with quiet have "\<not> cancel_between w 0" by simp
    then have nc: "\<not> cancel_download ?d3"
      by (simp add: reset_progress_fields other_thread_def)
    from cancel have c: "cancel_in_flight w (0 + k) \<or> cancel_between w (0 + k)" by auto
    from quiet have q: "\<forall>j. 0 < j \<and> j < 0 + k \<longrightarrow> \<not> cancel_in_flight w j \<and> \<not> cancel_between w j"
      by simp
    from False have "0 < k" by simp
    from loop_cancel_after [OF nc this k completes q c] show ?thesis .
  qed
  show ?thesis
    by (simp add: download_playlist_def catch_all_def body loop reset_progress_fields d1)
qed

lemma five_urls:
  "urls_to_download True [] (playlist_entries five_entries)
     = map (\<lambda>i. ''https://www.youtube.com/watch?v='' @ i) [''v1'', ''v2'', ''v3'', ''v4'', ''v5'']"
  by (simp add: five_entries_def playlist_entries_def id_in_def watch_url_def)

theorem cancel_between_items_witness:
  "fst (download_playlist (test_world (\<lambda>u. None) (\<lambda>f. None) (\<lambda>i. i = 2))
          ''https://www.youtube.com/playlist?list=PL1'' ''mp3'' ''192'' None True
          (new_downloader ''/music'' ''/app/descargas'')) = Inr False
   \<and> engine_calls (snd (download_playlist (test_world (\<lambda>u. None) (\<lambda>f. None) (\<lambda>i. i = 2))
          ''https://www.youtube.com/playlist?list=PL1'' ''mp3'' ''192'' None True
          (new_downloader ''/music'' ''/app/descargas'')))
       = [''https://www.youtube.com/watch?v=v1'', ''https://www.youtube.com/watch?v=v2'']"
proof -
  let ?w = "test_world (\<lambda>u. None) (\<lambda>f. None) (\<lambda>i. i = 2)"
  let ?d = "new_downloader ''/music'' ''/app/descargas''"
  let ?urls = "map (\<lambda>i. ''https://www.youtube.com/watch?v='' @ i) [''v1'', ''v2'', ''v3'', ''v4'', ''v5'']"
  have "config_ok (config_store ?d)" by (simp add: new_downloader_def config_ok_initial)
  from build_succeeds [OF this] obtain options h where
    built: "build_download_options (progress_hook ?d \<noteq> None) ''mp3'' ''192''
              (Some (path_or None (base_path ?d))) True (config_store ?d) = Inr (options, h)"
    by blast
  have info: "get_video_info ?w ''https://www.youtube.com/playlist?list=PL1'' = Some five_entries"
    "info_truthy five_entries"
    by (simp_all add: get_video_info_def test_world_def info_truthy_def five_entries_def)
  have scan: "(if True then get_downloaded_ids ?w (playlist_folder ?w five_entries None ?d)
               else Inr []) = Inr []"
    by (simp add: get_downloaded_ids_def test_world_def)
  have urls: "urls_to_download True [] (playlist_entries five_entries) = ?urls" "?urls \<noteq> []"
    by (simp_all add: five_urls)
  have init: "ydl_init ?w (options_view h options) = None" by (simp add: test_world_def)
  have k: "2 \<le> length ?urls" by simp
  have completes: "\<forall>u \<in> set (take 2 ?urls). ydl_download ?w (options_view h options) u = None"
    by (simp add: test_world_def)
  have quiet: "\<forall>j. j < 2 \<longrightarrow> \<not> cancel_between ?w j \<and> \<not> cancel_in_flight ?w j"
    by (simp add: test_world_def)
  have cancel: "cancel_between ?w 2 \<or> (0 < (2::nat) \<and> cancel_in_flight ?w 2)"
    by (simp add: test_world_def)
  from cancel_between_items [OF info scan urls built init k completes quiet cancel]
  show ?thesis by (simp add: new_downloader_def numeral_2_eq_2)
qed

end
